(* ===== verification/Prelude.thy ===== *)
theory Prelude
  imports Main "HOL-Library.AList" "HOL-Library.Multiset" "HOL-Library.Word"
begin

text \<open>
  What the components share: the parts of the Go language and of its standard library that
  the exporter uses. Go maps are association lists with distinct keys (in some iteration
  order), errors are strings on the left of a sum, a panic is \<open>None\<close>, durations and instants are integers in
  nanoseconds. Floating point and strings are in \<open>Go_Float\<close> and \<open>Go_Strings\<close>. The collections \<open>go_simps\<close> and \<open>gomap_simps\<close> carry the
  component proofs.
\<close>

named_theorems go_simps and gomap_simps

section \<open>Errors and Go maps\<close>

type_synonym error = string
type_synonym 'a res = "error + 'a"
type_synonym byte = "8 word"
type_synonym ('k, 'v) gomap = "('k \<times> 'v) list"

abbreviation gomap_wf :: "('k, 'v) gomap \<Rightarrow> bool" where
  "gomap_wf m \<equiv> distinct (map fst m)"

lemma map_of_update [gomap_simps]:
  "map_of (AList.update k v m) k' = (if k' = k then Some v else map_of m k')"
  by (simp add: AList.update_conv)

lemma map_of_delete_if [gomap_simps]:
  "map_of (AList.delete k m) k' = (if k' = k then None else map_of m k')"
  by (simp add: AList.delete_conv)

lemma gomap_wf_update [gomap_simps]: "gomap_wf m \<Longrightarrow> gomap_wf (AList.update k v m)"
  by (rule AList.distinct_update)

lemma gomap_wf_delete [gomap_simps]: "gomap_wf m \<Longrightarrow> gomap_wf (AList.delete k m)"
  by (rule AList.distinct_delete)

lemma gomap_keys_update [gomap_simps]:
  "fst ` set (AList.update k v m) = insert k (fst ` set m)"
  by (simp add: AList.dom_update)

lemma map_of_Some_iff_mem: "gomap_wf m \<Longrightarrow> map_of m k = Some v \<longleftrightarrow> (k, v) \<in> set m"
  by (auto dest: map_of_SomeD map_of_is_SomeI)

lemma set_map_filter_Some: "y \<in> set (List.map_filter f xs) \<longleftrightarrow> (\<exists>x \<in> set xs. f x = Some y)"
  by (induction xs) (auto simp: List.map_filter_simps split: option.splits)

lemma map_of_Some_key: "map_of m k = Some v \<Longrightarrow> k \<in> fst ` set m"
  by (force dest: map_of_SomeD)

text \<open>Deleting a list of keys, as a loop of \<open>delete(m, k)\<close> does.\<close>

definition delete_all :: "'k list \<Rightarrow> ('k, 'v) gomap \<Rightarrow> ('k, 'v) gomap" where
  "delete_all ks m = fold AList.delete ks m"

lemma delete_all_filter: "delete_all ks m = filter (\<lambda>(k, _). k \<notin> set ks) m"
  unfolding delete_all_def
proof (induction ks arbitrary: m)
  case (Cons k ks)
  then show ?case
    by (auto simp: AList.delete_eq intro: filter_cong)
qed simp

lemma map_of_delete_all [gomap_simps]:
  "map_of (delete_all ks m) k = (if k \<in> set ks then None else map_of m k)"
  by (induction m) (auto simp: delete_all_filter)

lemma gomap_wf_delete_all [gomap_simps]: "gomap_wf m \<Longrightarrow> gomap_wf (delete_all ks m)"
  unfolding delete_all_filter by (induction m) (auto simp: image_iff)

lemma length_delete_all:
  assumes "gomap_wf m" and "distinct ks" and "set ks \<subseteq> fst ` set m"
  shows "length (delete_all ks m) + length ks = length m"
proof -
  have "mset (filter (\<lambda>k. k \<in> set ks) (map fst m)) = mset ks"
    by (rule set_eq_iff_mset_eq_distinct [THEN iffD1]) (use assms in auto)
  then have "length (filter (\<lambda>k. k \<in> set ks) (map fst m)) = length ks"
    by (rule mset_eq_length)
  moreover have "length (filter (\<lambda>(k, _). k \<notin> set ks) m)
      = length (filter (\<lambda>k. k \<notin> set ks) (map fst m))"
    by (simp add: filter_map comp_def case_prod_unfold)
  ultimately show ?thesis
    using sum_length_filter_compl [of "\<lambda>k. k \<in> set ks" "map fst m"]
    by (simp add: delete_all_filter)
qed

section \<open>Updating one element of a list\<close>

text \<open>The goroutines of a pipeline are a list in which a step updates one element.\<close>

lemma sum_list_update_nat:
  "i < length xs \<Longrightarrow> xs ! i = y \<Longrightarrow>
     sum_list (map f (xs[i := x])) = (sum_list (map f xs) + f x) - (f y :: nat)"
proof (induction xs arbitrary: i)
  case (Cons a xs)
  show ?case
  proof (cases i)
    case (Suc j)
    with Cons.prems have "f y \<le> sum_list (map f xs)"
      using elem_le_sum_list [of j "map f xs"] by auto
    with Suc Cons show ?thesis by simp
  qed (use Cons.prems in simp)
qed simp

lemma bex_set_update:
  "i < length xs \<Longrightarrow> (\<exists>x \<in> set xs. P x) \<Longrightarrow> (P (xs ! i) \<Longrightarrow> P y) \<Longrightarrow> \<exists>x \<in> set (xs[i := y]). P x"
  by (metis in_set_conv_nth length_list_update nth_list_update)

lemma ball_set_update: "\<forall>x \<in> set xs. P x \<Longrightarrow> P y \<Longrightarrow> \<forall>x \<in> set (xs[i := y]). P x"
  by (metis insertE set_update_subset_insert subsetD)

lemma sum_list_mset_update:
  fixes f :: "'b \<Rightarrow> 'a multiset"
  shows "i < length xs \<Longrightarrow> (\<Sum>x\<leftarrow>xs[i := y]. f x) + f (xs ! i) = (\<Sum>x\<leftarrow>xs. f x) + f y"
  by (induction xs arbitrary: i) (auto simp: nth_Cons' ac_simps split: nat.splits)

lemma distinct_sub_mset:
  assumes "mset xs \<subseteq># mset ys" and "distinct ys" shows "distinct xs"
proof -
  obtain zs where "mset zs = mset ys - mset xs" using ex_mset by blast
  with assms(1) have "mset ys = mset (xs @ zs)" by simp
  with assms(2) show ?thesis using mset_eq_imp_distinct_iff distinct_append by blast
qed

lemma sum_list_update_group:
  fixes f :: "'b \<Rightarrow> 'a :: ab_group_add"
  shows "i < length xs \<Longrightarrow> sum_list (map f (xs[i := y])) = sum_list (map f xs) + f y - f (xs ! i)"
  by (induction xs arbitrary: i) (auto simp: nth_Cons' algebra_simps split: nat.splits)

lemma sum_list_of_nat_filter: "(\<Sum>x\<leftarrow>xs. if P x then 1 else 0) = of_nat (length (filter P xs))"
  by (induction xs) simp_all

lemma sum_list_all_empty: "\<forall>x \<in> set xs. f x = {#} \<Longrightarrow> sum_list (map f xs) = {#}"
  by (induction xs) auto

lemma sum_list_replicate_empty [simp]: "sum_list (replicate n {#}) = {#}"
  by (induction n) auto

section \<open>Instants and durations\<close>

text \<open>\<open>time.Time\<close> and \<open>time.Duration\<close> in nanoseconds; \<open>t.Sub(u)\<close> saturates at the 64-bit range.\<close>

type_synonym time = int
type_synonym duration = int

abbreviation Second :: int where "Second \<equiv> 1000000000"
abbreviation maxInt64 :: int where "maxInt64 \<equiv> 2 ^ 63 - 1"
abbreviation minInt64 :: int where "minInt64 \<equiv> - (2 ^ 63)"

definition Time_Sub :: "time \<Rightarrow> time \<Rightarrow> duration" where
  "Time_Sub t u = max minInt64 (min maxInt64 (t - u))"

definition Time_Unix :: "time \<Rightarrow> int" where
  "Time_Unix t = t div Second"

end
