(* ===== verification/Go_Float.thy ===== *)
theory Go_Float
  imports Prelude Complex_Main "HOL-Library.Signed_Division" "HOL-Library.Log_Nat"
begin

text \<open>
  Go's \<open>float64\<close>: finite values as rationals, the signed zero, the infinities and NaN, with
  the comparison of the language. Where the code computes (conversions of integers,
  \<open>Duration.Seconds\<close>) the result is rounded to 53 bits, ties to even. The lemmas show that
  rounding is monotone and exact on 53-bit dyadic rationals, and that truncating
  \<open>Seconds()\<close> gives the whole seconds of a duration.
\<close>

section \<open>Values and their order\<close>

datatype float64 = Fin rat | NegZero | PosInf | NegInf | NaN

text \<open>The order \<open>x < y\<close> of \<open>float64\<close>: false as soon as one side is NaN.\<close>

fun fless :: "float64 \<Rightarrow> float64 \<Rightarrow> bool" where
  "fless NaN _ = False"
| "fless _ NaN = False"
| "fless PosInf _ = False"
| "fless _ NegInf = False"
| "fless NegInf _ = True"
| "fless _ PosInf = True"
| "fless (Fin a) (Fin b) = (a < b)"
| "fless (Fin a) NegZero = (a < 0)"
| "fless NegZero (Fin b) = (0 < b)"
| "fless NegZero NegZero = False"

lemma fless_irrefl [simp]: "\<not> fless x x"
  by (cases x) auto

lemma fless_trans: "fless x y \<Longrightarrow> fless y z \<Longrightarrow> fless x z"
  by (cases x; cases y; cases z) auto

section \<open>Rounding\<close>

definition round_even :: "rat \<Rightarrow> int" where
  "round_even x = (let f = \<lfloor>x\<rfloor>; d = x - of_int f in
     if d < 1 / 2 then f else if 1 / 2 < d then f + 1 else if even f then f else f + 1)"

abbreviation exp2 :: "int \<Rightarrow> rat" where
  "exp2 k \<equiv> 2 powi k"

definition ilog2 :: "rat \<Rightarrow> int" where
  "ilog2 x = (case quotient_of x of (p, q) \<Rightarrow>
     let k = bitlen p - bitlen q in if exp2 k \<le> x then k else k - 1)"

definition fl :: "rat \<Rightarrow> rat" where
  "fl x = (if x = 0 then 0
           else let u = exp2 (ilog2 \<bar>x\<bar> - 52) in of_int (round_even (x / u)) * u)"

definition float64_of_int :: "int \<Rightarrow> float64" where
  "float64_of_int i = Fin (fl (of_int i))"

text \<open>\<open>Duration.Seconds()\<close> and the conversion of a finite \<open>float64\<close> to \<open>int64\<close>.\<close>

definition Duration_Seconds :: "duration \<Rightarrow> rat" where
  "Duration_Seconds d =
     fl (fl (of_int (d sdiv Second)) + fl (fl (of_int (d smod Second)) / fl 1000000000))"

definition int64_of_rat :: "rat \<Rightarrow> int" where
  "int64_of_rat x = (if 0 \<le> x then \<lfloor>x\<rfloor> else \<lceil>x\<rceil>)"

lemma round_even_of_int [simp]: "round_even (of_int i) = i"
  by (simp add: round_even_def)

lemma round_even_bounds: "\<lfloor>x\<rfloor> \<le> round_even x" "round_even x \<le> \<lfloor>x\<rfloor> + 1"
  by (auto simp: round_even_def Let_def)

lemma round_even_mono:
  assumes "x \<le> y" shows "round_even x \<le> round_even y"
proof (cases "\<lfloor>x\<rfloor> = \<lfloor>y\<rfloor>")
  case True
  with assms show ?thesis by (auto simp: round_even_def Let_def)
next
  case False
  with assms have "\<lfloor>x\<rfloor> + 1 \<le> \<lfloor>y\<rfloor>" using floor_mono [OF assms] by linarith
  then show ?thesis using round_even_bounds [of x] round_even_bounds [of y] by linarith
qed

lemma exp2_less_iff: "exp2 a < exp2 b \<longleftrightarrow> a < b"
  using power_int_strict_increasing [of a b "2::rat"] power_int_increasing [of b a "2::rat"]
  by (auto simp: not_less [symmetric])

lemma ilog2_bounds:
  assumes "0 < x" shows "exp2 (ilog2 x) \<le> x" and "x < exp2 (ilog2 x + 1)"
proof -
  obtain p q where pq: "quotient_of x = (p, q)" by fastforce
  from quotient_of_div [OF pq] quotient_of_denom_pos [OF pq]
  have x: "x = of_int p / of_int q" and q: "0 < q" by auto
  with assms have p: "0 < p" by (simp add: zero_less_divide_iff)
  have bl: "exp2 (bitlen n - 1) \<le> of_int n \<and> of_int n < exp2 (bitlen n)" if "0 < n" for n
  proof -
    have "0 < bitlen n" using that by (simp add: bitlen_eq_zero_iff order.strict_iff_order bitlen_nonneg)
    then have e1: "exp2 (bitlen n - 1) = of_int (2 ^ nat (bitlen n - 1))"
      and e2: "exp2 (bitlen n) = of_int (2 ^ nat (bitlen n))" by (simp_all add: power_int_def)
    show ?thesis unfolding e1 e2 of_int_le_iff of_int_less_iff by (rule bitlen_bounds [OF that])
  qed
  let ?k = "bitlen p - bitlen q"
  have le: "exp2 (?k - 1) \<le> x"
  proof -
    have "exp2 (?k - 1) * of_int q \<le> exp2 (?k - 1) * exp2 (bitlen q)"
      using bl [OF q] by (intro mult_left_mono) auto
    also have "\<dots> = exp2 (bitlen p - 1)" by (simp flip: power_int_add)
    also have "\<dots> \<le> of_int p" using bl [OF p] by simp
    finally show ?thesis using q by (simp add: x field_simps)
  qed
  have lt: "x < exp2 (?k + 1)"
  proof -
    have "of_int p < exp2 (bitlen p)" using bl [OF p] by simp
    also have "\<dots> = exp2 (?k + 1) * exp2 (bitlen q - 1)" by (simp flip: power_int_add)
    also have "\<dots> \<le> exp2 (?k + 1) * of_int q" using bl [OF q] by (intro mult_left_mono) auto
    finally show ?thesis using q by (simp add: x field_simps)
  qed
  show "exp2 (ilog2 x) \<le> x" "x < exp2 (ilog2 x + 1)"
    using le lt by (auto simp: ilog2_def pq Let_def)
qed

lemma fl_dyadic:
  assumes "\<bar>n\<bar> < 2 ^ 53" shows "fl (of_int n / 2 ^ j) = of_int n / 2 ^ j"
proof (cases "n = 0")
  case True
  then show ?thesis by (simp add: fl_def)
next
  case False
  let ?x = "of_int n / 2 ^ j :: rat"
  let ?e = "ilog2 \<bar>?x\<bar>"
  from False have pos: "0 < \<bar>?x\<bar>" by simp
  have "exp2 ?e \<le> \<bar>?x\<bar>" by (rule ilog2_bounds [OF pos])
  also have "\<dots> = of_int \<bar>n\<bar> / 2 ^ j" by simp
  also have "\<dots> < of_int (2 ^ 53) / 2 ^ j"
    using of_int_less_iff [THEN iffD2, OF assms] by (intro divide_strict_right_mono) auto
  also have "\<dots> = exp2 (53 - int j)" by (simp add: power_int_diff)
  finally have "?e < 53 - int j" by (simp only: exp2_less_iff)
  then have "0 \<le> 52 - ?e - int j" by simp
  then obtain m where m: "52 - ?e - int j = int m" by (rule nonneg_int_cases)
  have "?x / exp2 (?e - 52) = of_int n * exp2 (52 - ?e - int j)"
    by (simp add: power_int_diff power_int_add field_simps)
  also have "\<dots> = of_int (n * 2 ^ m)" unfolding m by simp
  finally have q: "?x / exp2 (?e - 52) = of_int (n * 2 ^ m)" .
  from False have "fl ?x = of_int (round_even (?x / exp2 (?e - 52))) * exp2 (?e - 52)"
    by (simp add: fl_def Let_def)
  also have "\<dots> = ?x / exp2 (?e - 52) * exp2 (?e - 52)"
    unfolding q round_even_of_int ..
  also have "\<dots> = ?x" by simp
  finally show ?thesis .
qed

lemma fl_zero [simp]: "fl 0 = 0"
  by (simp add: fl_def)

lemma fl_of_int: "\<bar>n\<bar> < 2 ^ 53 \<Longrightarrow> fl (of_int n) = of_int n"
  using fl_dyadic [of n 0] by simp

lemma float64_of_int_exact [go_simps]:
  "\<bar>i\<bar> < 2 ^ 53 \<Longrightarrow> float64_of_int i = Fin (of_int i)"
  by (simp add: float64_of_int_def fl_of_int)

text \<open>Rounding stays in the binade of its argument, closed at its upper end.\<close>

lemma fl_binade:
  assumes "0 < x" shows "exp2 (ilog2 x) \<le> fl x" and "fl x \<le> exp2 (ilog2 x + 1)"
proof -
  let ?u = "exp2 (ilog2 x - 52)"
  have lo: "exp2 (ilog2 x) / ?u = of_int (2 ^ 52)" and hi: "exp2 (ilog2 x + 1) / ?u = of_int (2 ^ 53)"
    by (simp_all add: power_int_diff power_int_add)
  have "exp2 (ilog2 x) / ?u \<le> x / ?u" and "x / ?u \<le> exp2 (ilog2 x + 1) / ?u"
    using ilog2_bounds [OF assms] by (auto intro!: divide_right_mono)
  then have "2 ^ 52 \<le> round_even (x / ?u)" and "round_even (x / ?u) \<le> 2 ^ 53"
    using round_even_mono [of "of_int (2 ^ 52)" "x / ?u"] round_even_mono [of "x / ?u" "of_int (2 ^ 53)"]
    unfolding lo hi round_even_of_int by blast+
  then have "of_int (2 ^ 52) \<le> (of_int (round_even (x / ?u)) :: rat)"
    and "(of_int (round_even (x / ?u)) :: rat) \<le> of_int (2 ^ 53)"
    by (simp_all only: of_int_le_iff)
  then have "exp2 (ilog2 x) / ?u * ?u \<le> of_int (round_even (x / ?u)) * ?u"
    and "of_int (round_even (x / ?u)) * ?u \<le> exp2 (ilog2 x + 1) / ?u * ?u"
    unfolding lo hi by (auto intro!: mult_right_mono)
  then show "exp2 (ilog2 x) \<le> fl x" and "fl x \<le> exp2 (ilog2 x + 1)"
    using assms by (simp_all add: fl_def Let_def)
qed

lemma fl_mono:
  assumes "0 \<le> x" and "x \<le> y" shows "fl x \<le> fl y"
proof (cases "x = 0")
  case True
  then show ?thesis using fl_binade(1) [of y] assms
    by (cases "y = 0") (auto intro: order_trans [OF _ fl_binade(1) [of y]])
next
  case False
  with assms have pos: "0 < x" "0 < y" by auto
  have "exp2 (ilog2 x) < exp2 (ilog2 y + 1)"
    using ilog2_bounds [OF pos(1)] ilog2_bounds [OF pos(2)] assms by linarith
  then have le: "ilog2 x \<le> ilog2 y" by (simp only: exp2_less_iff)
  show ?thesis
  proof (cases "ilog2 x = ilog2 y")
    case True
    have "round_even (x / exp2 (ilog2 y - 52)) \<le> round_even (y / exp2 (ilog2 y - 52))"
      by (intro round_even_mono divide_right_mono assms) simp
    with True pos show ?thesis by (simp add: fl_def Let_def mult_right_mono)
  next
    case False
    with le have "exp2 (ilog2 x + 1) \<le> exp2 (ilog2 y)" by (intro power_int_increasing) auto
    then show ?thesis using fl_binade(2) [OF pos(1)] fl_binade(1) [OF pos(2)] by linarith
  qed
qed

text \<open>
  \<open>int64(d.Seconds())\<close> is the number of whole seconds of a non-negative duration shorter than
  \<open>2 ^ 23\<close> seconds (97 days): beyond that the fraction may round up to the next second.
\<close>

lemma Duration_Seconds_trunc [go_simps]:
  assumes "0 \<le> d" and "d < 2 ^ 23 * Second"
  shows "int64_of_rat (Duration_Seconds d) = d div Second"
proof -
  define s n where "s = d div Second" and "n = d mod Second"
  have sd: "d sdiv Second = s" "d smod Second = n"
    using assms(1) by (cases "d = 0"; simp add: s_def n_def signed_divide_int_def signed_modulo_int_def)+
  have bounds: "0 \<le> s" "s < 2 ^ 23" "0 \<le> n" "n < Second"
    using assms by (auto simp: s_def n_def)
  define f where "f = fl (of_int n / 1000000000)"
  have "fl (of_int n / 1000000000) \<le> fl (of_int (2 ^ 30 - 1) / 2 ^ 30)"
    using bounds by (intro fl_mono) (auto simp: field_simps)
  also have "\<dots> = of_int (2 ^ 30 - 1) / 2 ^ 30" by (rule fl_dyadic) simp
  finally have f: "f \<le> 1 - 1 / 2 ^ 30" by (simp add: f_def)
  have f0: "0 \<le> f" using fl_mono [of 0 "of_int n / 1000000000"] bounds by (simp add: f_def)
  have flg: "fl 1000000000 = 1000000000" using fl_of_int [of 1000000000] by simp
  have eq: "Duration_Seconds d = fl (of_int s + f)"
    using bounds by (simp add: Duration_Seconds_def sd f_def fl_of_int flg)
  have "fl (of_int s + f) \<le> fl (of_int ((s + 1) * 2 ^ 30 - 1) / 2 ^ 30)"
    using bounds f f0 by (intro fl_mono) (auto simp: field_simps)
  also have "\<dots> = of_int ((s + 1) * 2 ^ 30 - 1) / 2 ^ 30" using bounds by (intro fl_dyadic) simp
  also have "\<dots> < of_int s + 1" by (simp add: field_simps)
  finally have hi: "fl (of_int s + f) < of_int s + 1" .
  have "of_int s = fl (of_int s)" using bounds by (simp add: fl_of_int)
  also have "\<dots> \<le> fl (of_int s + f)" using bounds f0 by (intro fl_mono) auto
  finally have lo: "of_int s \<le> fl (of_int s + f)" .
  have "0 \<le> fl (of_int s + f)" using lo bounds by (auto intro: order_trans)
  with lo hi show ?thesis by (simp add: int64_of_rat_def eq floor_unique s_def)
qed

end
