(* ===== verification/Go_Strings.thy ===== *)
theory Go_Strings
  imports Go_Float "HOL-Library.Sublist"
begin

text \<open>
  What the exporter uses of the packages \<open>strings\<close>, \<open>strconv\<close> and \<open>encoding/hex\<close>. Strings are
  lists of bytes; \<open>ToUpper\<close> and \<open>ToLower\<close> map the ASCII letters, as Go does on ASCII strings.
  The lemmas are the round trips \<open>Atoi\<close> after \<open>Itoa\<close>, \<open>Split\<close> after \<open>Join\<close> and
  \<open>DecodeString\<close> after \<open>EncodeToString\<close>.
\<close>

section \<open>Package strings\<close>

definition HasPrefix :: "string \<Rightarrow> string \<Rightarrow> bool" where
  "HasPrefix s p = prefix p s"

definition TrimPrefix :: "string \<Rightarrow> string \<Rightarrow> string" where
  "TrimPrefix s p = (if HasPrefix s p then drop (length p) s else s)"

definition to_upper :: "char \<Rightarrow> char" where
  "to_upper c = (if 97 \<le> (of_char c :: nat) \<and> (of_char c :: nat) \<le> 122 then char_of ((of_char c :: nat) - 32) else c)"

definition to_lower :: "char \<Rightarrow> char" where
  "to_lower c = (if 65 \<le> (of_char c :: nat) \<and> (of_char c :: nat) \<le> 90 then char_of ((of_char c :: nat) + 32) else c)"

definition ToUpper :: "string \<Rightarrow> string" where
  "ToUpper = map to_upper"

definition ToLower :: "string \<Rightarrow> string" where
  "ToLower = map to_lower"

text \<open>\<open>strings.Split\<close> for a separator of two bytes: leftmost matches, not overlapping.\<close>

fun cons_hd :: "'a \<Rightarrow> 'a list list \<Rightarrow> 'a list list" where
  "cons_hd c [] = [[c]]"
| "cons_hd c (s # ss) = (c # s) # ss"

fun Split2 :: "char \<Rightarrow> char \<Rightarrow> string \<Rightarrow> string list" where
  "Split2 a b [] = [[]]"
| "Split2 a b [c] = [[c]]"
| "Split2 a b (c # d # s) =
     (if c = a \<and> d = b then [] # Split2 a b s else cons_hd c (Split2 a b (d # s)))"

fun Join :: "string list \<Rightarrow> string \<Rightarrow> string" where
  "Join [] sep = []"
| "Join [s] sep = s"
| "Join (s # t # ss) sep = s @ sep @ Join (t # ss) sep"

lemma Split2_nonempty [simp]: "Split2 a b s \<noteq> []"
  by (induction a b s rule: Split2.induct) (auto elim: cons_hd.elims)

lemma Join_cons_hd: "ss \<noteq> [] \<Longrightarrow> Join (cons_hd c ss) sep = c # Join ss sep"
  by (cases ss rule: Join.cases [of "(ss, sep)" for ss]) auto

text \<open>Joining the pieces with the separator gives the string back.\<close>

lemma Join_Split2: "Join (Split2 a b s) [a, b] = s"
proof (induction a b s rule: Split2.induct)
  case (3 a b c d s)
  then show ?case
    by (cases "Split2 a b s") (auto simp: Join_cons_hd)
qed auto

text \<open>
  A segment that may stand between separators \<open>aa\<close>: it holds no two adjacent \<open>a\<close>s and does
  not end in \<open>a\<close>, so that the leftmost match is the separator that was put there.
\<close>

fun no_pair :: "char \<Rightarrow> string \<Rightarrow> bool" where
  "no_pair a [] = True"
| "no_pair a [c] = (c \<noteq> a)"
| "no_pair a (c # d # s) = (\<not> (c = a \<and> d = a) \<and> no_pair a (d # s))"

lemma Split2_no_pair: "no_pair a s \<Longrightarrow> Split2 a a s = [s]"
  by (induction a s rule: no_pair.induct) auto

lemma Split2_append: "no_pair a s \<Longrightarrow> Split2 a a (s @ a # a # t) = s # Split2 a a t"
  by (induction a s rule: no_pair.induct) auto

lemma Split2_Join:
  assumes "ss \<noteq> []" and "\<forall>s \<in> set ss. no_pair a s"
  shows "Split2 a a (Join ss [a, a]) = ss"
  using assms
proof (induction ss "[a, a]" rule: Join.induct)
  case (3 s t ss)
  then show ?case by (simp add: Split2_append)
qed (auto simp: Split2_no_pair)

lemma ToLower_ToUpper:
  assumes "\<forall>c \<in> set s. \<not> (65 \<le> (of_char c :: nat) \<and> (of_char c :: nat) \<le> 90)"
  shows "ToLower (ToUpper s) = s"
  using assms by (induction s) (auto simp: ToLower_def ToUpper_def to_lower_def to_upper_def)

lemma ToUpper_append: "ToUpper (s @ t) = ToUpper s @ ToUpper t"
  by (simp add: ToUpper_def)

lemma TrimPrefix_append [simp]: "TrimPrefix (p @ s) p = s"
  by (simp add: TrimPrefix_def HasPrefix_def)

section \<open>Package strconv\<close>

definition digit_char :: "nat \<Rightarrow> char" where
  "digit_char d = char_of (48 + d)"

definition is_digit :: "char \<Rightarrow> bool" where
  "is_digit c \<longleftrightarrow> 48 \<le> (of_char c :: nat) \<and> (of_char c :: nat) \<le> 57"

definition digit_val :: "char \<Rightarrow> nat" where
  "digit_val c = of_char c - 48"

fun utoa :: "nat \<Rightarrow> string" where
  "utoa n = (if n < 10 then [digit_char n] else utoa (n div 10) @ [digit_char (n mod 10)])"

declare utoa.simps [simp del]

definition Itoa :: "int \<Rightarrow> string" where
  "Itoa i = (if i < 0 then CHR ''-'' # utoa (nat (- i)) else utoa (nat i))"

definition digits_val :: "string \<Rightarrow> nat" where
  "digits_val s = foldl (\<lambda>n c. 10 * n + digit_val c) 0 s"

text \<open>\<open>strconv.Atoi\<close>: an optional sign, at least one digit, and the range of \<open>int\<close>.\<close>

definition Atoi_digits :: "bool \<Rightarrow> string \<Rightarrow> int option" where
  "Atoi_digits neg s =
     (if s = [] \<or> \<not> list_all is_digit s then None
      else let v = (if neg then - int (digits_val s) else int (digits_val s))
           in if v < minInt64 \<or> maxInt64 < v then None else Some v)"

fun Atoi :: "string \<Rightarrow> int option" where
  "Atoi [] = None"
| "Atoi (c # s) =
     (if c = CHR ''-'' then Atoi_digits True s
      else if c = CHR ''+'' then Atoi_digits False s
      else Atoi_digits False (c # s))"

lemma of_char_digit_char [simp]: "d < 10 \<Longrightarrow> (of_char (digit_char d) :: nat) = 48 + d"
  by (simp add: digit_char_def)

lemma digit_char_simps [simp]:
  "d < 10 \<Longrightarrow> is_digit (digit_char d)" "d < 10 \<Longrightarrow> digit_val (digit_char d) = d"
  by (simp_all add: is_digit_def digit_val_def)

lemma utoa_nonempty [simp]: "utoa n \<noteq> []"
  by (subst utoa.simps) simp

lemma utoa_digits: "list_all is_digit (utoa n)"
proof (induction n rule: utoa.induct)
  case (1 n)
  then show ?case by (subst utoa.simps) (auto simp: not_less)
qed

lemma digits_val_utoa [simp]: "digits_val (utoa n) = n"
proof (induction n rule: utoa.induct)
  case (1 n)
  then show ?case
    by (subst utoa.simps) (auto simp: digits_val_def not_less)
qed

lemma utoa_hd_digit: "is_digit (hd (utoa n))"
  using utoa_digits [of n] by (cases "utoa n") auto

lemma is_digit_no_sign: "\<not> is_digit (CHR ''-'')" "\<not> is_digit (CHR ''+'')"
  by (simp_all add: is_digit_def)

text \<open>Reading back a printed integer of the machine's range gives it again.\<close>

lemma Atoi_Itoa:
  assumes "minInt64 \<le> i" and "i \<le> maxInt64"
  shows "Atoi (Itoa i) = Some i"
proof (cases "i < 0")
  case True
  with assms show ?thesis
    by (simp add: Itoa_def Atoi_digits_def utoa_digits Let_def)
next
  case False
  obtain c s where cs: "utoa (nat i) = c # s" by (cases "utoa (nat i)") auto
  with utoa_hd_digit [of "nat i"] have "c \<noteq> CHR ''-''" "c \<noteq> CHR ''+''"
    using is_digit_no_sign by auto
  moreover have "list_all is_digit (c # s)" "digits_val (c # s) = nat i"
    using utoa_digits [of "nat i"] digits_val_utoa [of "nat i"] by (simp_all only: cs)
  ultimately show ?thesis
    using False assms by (simp add: Itoa_def cs Atoi_digits_def Let_def)
qed

lemma Itoa_inj: "Itoa i = Itoa j \<Longrightarrow> i = j"
proof -
  assume eq: "Itoa i = Itoa j"
  have hd: "hd (Itoa k) = CHR ''-'' \<longleftrightarrow> k < 0" for k
    using utoa_hd_digit [of "nat k"] is_digit_no_sign by (auto simp: Itoa_def)
  from eq hd [of i] hd [of j] have sgn: "i < 0 \<longleftrightarrow> j < 0" by auto
  with eq have "utoa (nat \<bar>i\<bar>) = utoa (nat \<bar>j\<bar>)" by (auto simp: Itoa_def split: if_splits)
  then have "nat \<bar>i\<bar> = nat \<bar>j\<bar>" by (metis digits_val_utoa)
  with sgn show "i = j" by auto
qed

lemma Itoa_inject [simp]: "Itoa i = Itoa j \<longleftrightarrow> i = j"
  using Itoa_inj by blast

text \<open>
  \<open>strconv.FormatFloat(f, 'f', 4, 64)\<close>: the exact value rounded to four decimals, ties to
  even; the sign is printed even when the digits round to zero.
\<close>

fun pad4 :: "nat \<Rightarrow> string" where
  "pad4 n = [digit_char (n div 1000 mod 10), digit_char (n div 100 mod 10),
             digit_char (n div 10 mod 10), digit_char (n mod 10)]"

definition fixed4 :: "rat \<Rightarrow> string" where
  "fixed4 x = (let n = nat (round_even (x * 10000))
               in utoa (n div 10000) @ ''.'' @ pad4 (n mod 10000))"

fun FormatFloat4 :: "float64 \<Rightarrow> string" where
  "FormatFloat4 (Fin x) = (if x < 0 then ''-'' @ fixed4 (- x) else fixed4 x)"
| "FormatFloat4 NegZero = ''-0.0000''"
| "FormatFloat4 PosInf = ''+Inf''"
| "FormatFloat4 NegInf = ''-Inf''"
| "FormatFloat4 NaN = ''NaN''"

section \<open>Package encoding/hex\<close>

definition hex_char :: "nat \<Rightarrow> char" where
  "hex_char n = (if n < 10 then char_of (48 + n) else char_of (87 + n))"

definition from_hex :: "char \<Rightarrow> nat option" where
  "from_hex c = (let n = of_char c in
     if 48 \<le> n \<and> n \<le> 57 then Some (n - 48)
     else if 97 \<le> n \<and> n \<le> 102 then Some (n - 87)
     else if 65 \<le> n \<and> n \<le> 70 then Some (n - 55) else None)"

fun EncodeToString :: "byte list \<Rightarrow> string" where
  "EncodeToString [] = []"
| "EncodeToString (b # bs) = hex_char (unat b div 16) # hex_char (unat b mod 16) # EncodeToString bs"

text \<open>\<open>hex.DecodeString\<close>: no result on an odd length or on a byte that is no hex digit.\<close>

fun DecodeString :: "string \<Rightarrow> byte list option" where
  "DecodeString [] = Some []"
| "DecodeString [c] = None"
| "DecodeString (c # d # s) =
     (case from_hex c of None \<Rightarrow> None
      | Some h \<Rightarrow> (case from_hex d of None \<Rightarrow> None
         | Some l \<Rightarrow> map_option (Cons (word_of_nat (16 * h + l))) (DecodeString s)))"

definition string_of_bytes :: "byte list \<Rightarrow> string" where
  "string_of_bytes bs = map (\<lambda>b. char_of (unat b)) bs"

lemma from_hex_hex_char [simp]: "n < 16 \<Longrightarrow> from_hex (hex_char n) = Some n"
  by (auto simp: from_hex_def hex_char_def Let_def)

lemma DecodeString_EncodeToString: "DecodeString (EncodeToString bs) = Some bs"
proof (induction bs)
  case (Cons b bs)
  have "unat b < 2 ^ LENGTH(8)" by (rule unsigned_less)
  then have "unat b div 16 < 16" by (auto simp: less_mult_imp_div_less)
  with Cons show ?case by simp
qed simp

lemma DecodeString_length:
  "DecodeString s = Some bs \<Longrightarrow> length s = 2 * length bs"
  by (induction s arbitrary: bs rule: DecodeString.induct) (auto split: option.splits)

lemma of_char_hex_char: "n < 16 \<Longrightarrow> (of_char (hex_char n) :: nat) \<in> {48..57} \<union> {97..102}"
  by (auto simp: hex_char_def)

lemma EncodeToString_chars:
  "c \<in> set (EncodeToString bs) \<Longrightarrow> (of_char c :: nat) \<in> {48..57} \<union> {97..102}"
proof (induction bs)
  case (Cons b bs)
  have "unat b < 2 ^ LENGTH(8)" by (rule unsigned_less)
  then have "unat b div 16 < 16" by (auto simp: less_mult_imp_div_less)
  with Cons of_char_hex_char [of "unat b div 16"] of_char_hex_char [of "unat b mod 16"]
  show ?case by auto
qed simp

end
