(* ===== verification/Probe.thy ===== *)
theory Probe
  imports Go_Strings
begin

text \<open>
  Package \<open>probe\<close>: the probe record and its accessors (\<open>probe.go\<close>), the request for a probe
  (\<open>probe_request.go\<close>) and the cache of probes (\<open>cache.go\<close>). The HTTP client and the JSON
  decoder are parameters; a clock reading is an argument of every operation that calls
  \<open>time.Now\<close>. The locale \<open>ttl_cache\<close> is the contract of the cache; it gives the
  value a lookup returns after any history of additions and clean-ups.
\<close>

section \<open>Probes\<close>

definition ipv6 :: int where
  "ipv6 = 6"

record Probe =
  ID :: int
  Asn4 :: int
  Asn6 :: int
  CountryCode :: string
  Coordinates :: "float64 list"

definition FromJSON :: "(byte list \<Rightarrow> Probe res) \<Rightarrow> byte list \<Rightarrow> Probe res" where
  "FromJSON unmarshal body =
     (case unmarshal body of Inl err \<Rightarrow> Inl err | Inr p \<Rightarrow> Inr p)"

definition ASNForIPVersion :: "Probe \<Rightarrow> int \<Rightarrow> int" where
  "ASNForIPVersion p v = (if v = ipv6 then Asn6 p else Asn4 p)"

definition Longitude :: "Probe \<Rightarrow> string" where
  "Longitude p =
     (if length (Coordinates p) = 0 then [] else FormatFloat4 (Coordinates p ! 0))"

text \<open>The second coordinate is read without a check of its own: \<open>None\<close> is the index panic.\<close>

definition Latitude :: "Probe \<Rightarrow> string option" where
  "Latitude p =
     (if length (Coordinates p) = 0 then Some []
      else if length (Coordinates p) \<le> 1 then None
      else Some (FormatFloat4 (Coordinates p ! 1)))"

section \<open>Requests\<close>

definition url :: string where
  "url = ''https://atlas.ripe.net/api/v2/probes/''"

text \<open>
  The client returns an error or a response; reading the body of the response returns an error
  or its bytes. The status code of the response is not looked at. The client has no timeout: the model says what a call that
  ends returns, and a call that does not end is a step that is never taken.
\<close>

record probe_api =
  client_Get :: "string \<Rightarrow> (byte list res) res"
  Unmarshal :: "byte list \<Rightarrow> Probe res"

definition probe_Get :: "probe_api \<Rightarrow> int \<Rightarrow> Probe res" where
  "probe_Get api pid =
     (case client_Get api (url @ Itoa pid) of
        Inl err \<Rightarrow> Inl err
      | Inr body \<Rightarrow> (case body of
          Inl err \<Rightarrow> Inl err
        | Inr bs \<Rightarrow> FromJSON (Unmarshal api) bs))"

section \<open>The cache\<close>

record cacheItem =
  expires :: time
  value_of :: Probe

record Cache =
  cache :: "(int, cacheItem) gomap"
  ttl :: duration

definition NewCache :: "duration \<Rightarrow> Cache" where
  "NewCache d = \<lparr>cache = [], ttl = d\<rparr>"

definition Cache_Get :: "time \<Rightarrow> int \<Rightarrow> Cache \<Rightarrow> Probe option" where
  "Cache_Get now pid c =
     (case map_of (cache c) pid of
        Some p \<Rightarrow> if now < expires p then Some (value_of p) else None
      | None \<Rightarrow> None)"

definition Cache_Add :: "time \<Rightarrow> int \<Rightarrow> Probe \<Rightarrow> Cache \<Rightarrow> Cache" where
  "Cache_Add now pid p c =
     c\<lparr>cache := AList.update pid \<lparr>expires = now + ttl c, value_of = p\<rparr> (cache c)\<rparr>"

text \<open>
  \<open>CleanUp\<close> reads the clock once per visited key (\<open>clock\<close>) and collects the expired keys
  before it takes the lock; it then deletes them under the lock and returns their number. The
  two phases are separate steps of the goroutine.
\<close>

definition CleanUp_scan :: "(int \<Rightarrow> time) \<Rightarrow> Cache \<Rightarrow> int list" where
  "CleanUp_scan clock c = map fst (filter (\<lambda>(k, v). expires v < clock k) (cache c))"

definition CleanUp_delete :: "int list \<Rightarrow> Cache \<Rightarrow> Cache \<times> nat" where
  "CleanUp_delete expired c = (c\<lparr>cache := delete_all expired (cache c)\<rparr>, length expired)"

definition CleanUp :: "(int \<Rightarrow> time) \<Rightarrow> Cache \<Rightarrow> Cache \<times> nat" where
  "CleanUp clock c = CleanUp_delete (CleanUp_scan clock c) c"

definition Cache_wf :: "Cache \<Rightarrow> bool" where
  "Cache_wf c \<longleftrightarrow> gomap_wf (cache c)"

subsection \<open>Lemmas\<close>

lemma Cache_wf_New [simp]: "Cache_wf (NewCache d)"
  by (simp add: Cache_wf_def NewCache_def)

lemma Cache_wf_Add [simp]: "Cache_wf c \<Longrightarrow> Cache_wf (Cache_Add now pid p c)"
  by (simp add: Cache_wf_def Cache_Add_def gomap_simps)

lemma Cache_wf_CleanUp [simp]: "Cache_wf c \<Longrightarrow> Cache_wf (fst (CleanUp clock c))"
  by (simp add: Cache_wf_def CleanUp_def CleanUp_delete_def gomap_simps)

lemma ttl_Add [simp]: "ttl (Cache_Add now pid p c) = ttl c"
  by (simp add: Cache_Add_def)

lemma ttl_CleanUp [simp]: "ttl (fst (CleanUp clock c)) = ttl c"
  by (simp add: CleanUp_def CleanUp_delete_def)

lemma ttl_New [simp]: "ttl (NewCache d) = d"
  by (simp add: NewCache_def)

lemma Get_New [simp]: "Cache_Get t pid (NewCache d) = None"
  by (simp add: Cache_Get_def NewCache_def)

lemma Get_Add:
  "Cache_Get t pid (Cache_Add now pid' p c) =
     (if pid = pid' then (if t < now + ttl c then Some p else None) else Cache_Get t pid c)"
  by (simp add: Cache_Get_def Cache_Add_def gomap_simps)

lemma mem_CleanUp_scan:
  "Cache_wf c \<Longrightarrow>
   k \<in> set (CleanUp_scan clock c) \<longleftrightarrow> (\<exists>v. map_of (cache c) k = Some v \<and> expires v < clock k)"
  by (force simp: CleanUp_scan_def Cache_wf_def map_of_Some_iff_mem)

lemma CleanUp_cache:
  assumes "Cache_wf c"
  shows "map_of (cache (fst (CleanUp clock c))) k =
    (case map_of (cache c) k of
       Some v \<Rightarrow> if expires v < clock k then None else Some v | None \<Rightarrow> None)"
  using mem_CleanUp_scan [OF assms, of k clock]
  by (auto simp: CleanUp_def CleanUp_delete_def gomap_simps split: option.splits)

lemma Get_CleanUp:
  assumes "Cache_wf c" and "clock pid \<le> t"
  shows "Cache_Get t pid (fst (CleanUp clock c)) = Cache_Get t pid c"
  using assms by (auto simp: Cache_Get_def CleanUp_cache split: option.splits)

lemma CleanUp_count:
  assumes "Cache_wf c"
  shows "length (cache (fst (CleanUp clock c))) + snd (CleanUp clock c) = length (cache c)"
proof -
  have "distinct (CleanUp_scan clock c)"
    using assms by (simp add: Cache_wf_def CleanUp_scan_def distinct_map_filter)
  moreover have "set (CleanUp_scan clock c) \<subseteq> fst ` set (cache c)"
    by (auto simp: CleanUp_scan_def)
  ultimately show ?thesis
    using assms by (simp add: CleanUp_def CleanUp_delete_def Cache_wf_def length_delete_all)
qed

section \<open>The contract of a cache with a time to live\<close>

text \<open>Operations on a cache, and the specification: the last value added for a key.\<close>

datatype ('k, 'v) cache_op = AddOp time 'k 'v | CleanUpOp "'k \<Rightarrow> time"

fun cache_run :: "(time \<Rightarrow> 'k \<Rightarrow> 'v \<Rightarrow> 'c \<Rightarrow> 'c) \<Rightarrow> (('k \<Rightarrow> time) \<Rightarrow> 'c \<Rightarrow> 'c) \<Rightarrow>
    ('k, 'v) cache_op list \<Rightarrow> 'c \<Rightarrow> 'c" where
  "cache_run add cleanup [] c = c"
| "cache_run add cleanup (AddOp now k v # ops) c = cache_run add cleanup ops (add now k v c)"
| "cache_run add cleanup (CleanUpOp clock # ops) c = cache_run add cleanup ops (cleanup clock c)"

fun last_added :: "('k, 'v) cache_op list \<Rightarrow> 'k \<Rightarrow> (time \<times> 'v) option" where
  "last_added [] k = None"
| "last_added (AddOp now k' v # ops) k =
     (case last_added ops k of Some x \<Rightarrow> Some x
      | None \<Rightarrow> if k = k' then Some (now, v) else None)"
| "last_added (CleanUpOp clock # ops) k = last_added ops k"

definition cleanups_before :: "time \<Rightarrow> ('k, 'v) cache_op list \<Rightarrow> 'k \<Rightarrow> bool" where
  "cleanups_before t ops k \<longleftrightarrow> (\<forall>clock. CleanUpOp clock \<in> set ops \<longrightarrow> clock k \<le> t)"

locale ttl_cache =
  fixes get :: "time \<Rightarrow> 'k \<Rightarrow> 'c \<Rightarrow> 'v option"
    and add :: "time \<Rightarrow> 'k \<Rightarrow> 'v \<Rightarrow> 'c \<Rightarrow> 'c"
    and cleanup :: "('k \<Rightarrow> time) \<Rightarrow> 'c \<Rightarrow> 'c"
    and life :: "'c \<Rightarrow> duration"
    and invar :: "'c \<Rightarrow> bool"
  assumes get_add: "get t k (add now k' v c) =
      (if k = k' then (if t < now + life c then Some v else None) else get t k c)"
    and get_cleanup: "invar c \<Longrightarrow> clock k \<le> t \<Longrightarrow> get t k (cleanup clock c) = get t k c"
    and life_add: "life (add now k v c) = life c"
    and life_cleanup: "life (cleanup clock c) = life c"
    and invar_add: "invar c \<Longrightarrow> invar (add now k v c)"
    and invar_cleanup: "invar c \<Longrightarrow> invar (cleanup clock c)"
begin

lemma get_run:
  assumes "invar c" and "cleanups_before t ops k"
  shows "get t k (cache_run add cleanup ops c) =
    (case last_added ops k of
       Some (now, v) \<Rightarrow> if t < now + life c then Some v else None
     | None \<Rightarrow> get t k c)"
  using assms
proof (induction ops arbitrary: c)
  case (Cons op ops)
  from Cons.prems(2) have later: "cleanups_before t ops k"
    by (simp add: cleanups_before_def)
  show ?case
  proof (cases op)
    case (AddOp now k' v)
    with Cons.IH [OF invar_add [OF Cons.prems(1)] later] show ?thesis
      by (auto simp: get_add life_add split: option.splits)
  next
    case (CleanUpOp clock)
    with Cons.prems(2) have "clock k \<le> t" by (simp add: cleanups_before_def)
    with CleanUpOp Cons.IH [OF invar_cleanup [OF Cons.prems(1)] later] Cons.prems(1)
    show ?thesis by (auto simp: get_cleanup life_cleanup split: option.splits)
  qed
qed simp

end

interpretation probe_cache: ttl_cache Cache_Get Cache_Add "\<lambda>clock c. fst (CleanUp clock c)" ttl Cache_wf
  by unfold_locales (auto simp: Get_Add Get_CleanUp)

section \<open>Properties\<close>

text \<open>C15: after any history of \<open>Add\<close> and \<open>CleanUp\<close> on a new cache, \<open>Get\<close> returns the value
  last added for the probe while its time to live lasts, and nothing afterwards or when the probe was
  never added: clean-ups (whose clock readings precede the lookup) cannot be observed.\<close>

theorem cache_history:
  assumes "cleanups_before t ops pid"
  shows "Cache_Get t pid (cache_run Cache_Add (\<lambda>clock c. fst (CleanUp clock c)) ops (NewCache d)) =
    (case last_added ops pid of
       Some (now, p) \<Rightarrow> if t < now + d then Some p else None
     | None \<Rightarrow> None)"
  using probe_cache.get_run [OF Cache_wf_New assms, of d]
  by (simp split: option.splits)

definition sample_probe :: Probe where
  "sample_probe = \<lparr>ID = 6031, Asn4 = 1101, Asn6 = 0, CountryCode = ''NL'', Coordinates = []\<rparr>"

theorem cache_history_witness:
  "cleanups_before 15 [AddOp 0 6031 sample_probe, CleanUpOp (\<lambda>_. 12), AddOp 13 6031 sample_probe] 6031 \<and>
   Cache_Get 15 6031 (cache_run Cache_Add (\<lambda>clock c. fst (CleanUp clock c))
     [AddOp 0 6031 sample_probe, CleanUpOp (\<lambda>_. 12), AddOp 13 6031 sample_probe] (NewCache 10)) = Some sample_probe"
proof -
  have h: "cleanups_before 15 [AddOp 0 6031 sample_probe, CleanUpOp (\<lambda>_. 12), AddOp 13 6031 sample_probe] 6031"
    by (auto simp: cleanups_before_def)
  with cache_history [OF h, of 10] show ?thesis by simp
qed

text \<open>C33: \<open>CleanUp\<close> removes exactly the entries whose expiry lies before the clock reading
  of their visit, keeps every other entry as it is, keeps the keys distinct and returns the
  number of entries it removed.\<close>

theorem cleanup_exact:
  assumes "Cache_wf c"
  shows "Cache_wf (fst (CleanUp clock c)) \<and>
    (\<forall>k. map_of (cache (fst (CleanUp clock c))) k =
       (case map_of (cache c) k of
          Some v \<Rightarrow> if expires v < clock k then None else Some v | None \<Rightarrow> None)) \<and>
    length (cache (fst (CleanUp clock c))) + snd (CleanUp clock c) = length (cache c)"
  using assms CleanUp_cache [OF assms] CleanUp_count [OF assms] by simp

theorem cleanup_exact_witness:
  "Cache_wf (Cache_Add 0 1 sample_probe (NewCache 10)) \<and>
   Cache_wf (fst (CleanUp (\<lambda>_. 20) (Cache_Add 0 1 sample_probe (NewCache 10))))"
proof -
  have h: "Cache_wf (Cache_Add 0 1 sample_probe (NewCache 10))" by simp
  with cleanup_exact [OF h, of "\<lambda>_. 20"] show ?thesis by blast
qed

text \<open>C39: \<open>CleanUp\<close> looks for expired entries before it takes the lock. When another goroutine
  renews an expired probe between the two phases, the fresh entry is deleted with the stale key:
  the lookup after the clean-up misses, whatever the time to live.\<close>

theorem cleanup_drops_renewed:
  assumes "Cache_wf c" and "map_of (cache c) pid = Some item" and "expires item < clock pid"
  shows "Cache_Get t pid (fst (CleanUp_delete (CleanUp_scan clock c) (Cache_Add now pid p c))) = None"
  using mem_CleanUp_scan [OF assms(1), of pid clock] assms(2,3)
  by (simp add: CleanUp_delete_def Cache_Get_def gomap_simps)

theorem cleanup_drops_renewed_witness:
  "Cache_Get 21 1 (Cache_Add 20 1 sample_probe (Cache_Add 0 1 sample_probe (NewCache 10))) = Some sample_probe \<and>
   Cache_Get 21 1 (fst (CleanUp_delete
     (CleanUp_scan (\<lambda>_. 20) (Cache_Add 0 1 sample_probe (NewCache 10)))
     (Cache_Add 20 1 sample_probe (Cache_Add 0 1 sample_probe (NewCache 10))))) = None"
proof -
  let ?c = "Cache_Add 0 1 sample_probe (NewCache 10)"
  have m: "map_of (cache ?c) 1 = Some \<lparr>expires = 10, value_of = sample_probe\<rparr>"
    by (simp add: Cache_Add_def NewCache_def)
  have "Cache_Get 21 1 (fst (CleanUp_delete (CleanUp_scan (\<lambda>_. 20) ?c) (Cache_Add 20 1 sample_probe ?c))) = None"
    by (rule cleanup_drops_renewed [OF _ m]) simp_all
  moreover have "Cache_Get 21 1 (Cache_Add 20 1 sample_probe ?c) = Some sample_probe"
    by (simp add: Get_Add NewCache_def)
  ultimately show ?thesis by simp
qed

end
