(* ===== verification/Results.thy ===== *)
theory Results
  imports Probe "HOL-Library.Monad_Syntax"
begin

text \<open>
  The data the exporter exchanges with its libraries. \<open>Result\<close> has one field per accessor of
  \<open>measurement.Result\<close> (package \<open>ripeatlas\<close>) that the code calls, holding the value the
  accessor returns; theorems range over all of them. A metric or a description sent to
  Prometheus is the call that builds it with its arguments, and a histogram is the options
  it was created with and the values it was given to observe. Library functions whose result
  matters are the fields of \<open>ext\<close>.
\<close>

section \<open>Measurement results\<close>

record hop_reply =
  From :: string
  Reply_Rtt :: float64

record http_result =
  H_DstAddr :: string
  H_Af :: int
  H_Method :: string
  H_Dnserr :: string
  H_Ver :: string
  H_Res :: int
  H_Bsize :: int
  H_Hsize :: int
  H_Rt :: float64

text \<open>
  \<open>UnpackAbuf\<close> fails, or gives no message, or a message whose EDNS0 record (if it has one) is a
  list of options.
\<close>

datatype edns_option = EDNS0_NSID string | EDNS0_other

datatype unpacked = UnpackError error | NoMsg | Msg "edns_option list option"

record dns_result =
  D_Rt :: float64
  UnpackAbuf :: unpacked

record sslcert_alert =
  Level :: int
  Description :: int

record Result =
  ParseError :: "error option"
  MsmId :: int
  PrbId :: int
  Af :: int
  Type_of :: string
  Timestamp :: int
  DstAddr :: string
  DstName :: string
  Proto :: string
  Uri :: string
  Min_of :: float64
  Max_of :: float64
  Avg_of :: float64
  Sent :: int
  Rcvd :: int
  Dup :: int
  Ttl :: int
  Size_of :: int
  PingResults :: "float64 list"
  TracerouteResults :: "hop_reply list list"
  HttpResults :: "http_result list"
  DnsResult :: "dns_result option"
  Cert :: "string list"
  Ver :: string
  Rt :: float64
  SslcertAlert :: "sslcert_alert option"
  Poll :: float64
  Precision :: float64
  RootDelay :: float64
  RootDispersion :: float64
  Version :: int

text \<open>The zero value of a result, the starting point of examples.\<close>

definition zero_Result :: Result where
  "zero_Result = \<lparr>ParseError = None, MsmId = 0, PrbId = 0, Af = 0, Type_of = [], Timestamp = 0,
     DstAddr = [], DstName = [], Proto = [], Uri = [], Min_of = Fin 0, Max_of = Fin 0,
     Avg_of = Fin 0, Sent = 0, Rcvd = 0, Dup = 0, Ttl = 0, Size_of = 0, PingResults = [],
     TracerouteResults = [], HttpResults = [], DnsResult = None, Cert = [], Ver = [], Rt = Fin 0,
     SslcertAlert = None, Poll = Fin 0, Precision = Fin 0, RootDelay = Fin 0,
     RootDispersion = Fin 0, Version = 0\<rparr>"

section \<open>Metrics\<close>

record Desc =
  d_ns :: string
  d_sub :: string
  d_name :: string
  d_help :: string
  d_labels :: "string list"

definition NewDesc :: "string \<Rightarrow> string \<Rightarrow> string \<Rightarrow> string \<Rightarrow> string list \<Rightarrow> Desc" where
  "NewDesc n s x h ls = \<lparr>d_ns = n, d_sub = s, d_name = x, d_help = h, d_labels = ls\<rparr>"

lemma NewDesc_sel [simp]:
  "d_labels (NewDesc n s x h ls) = ls" "d_name (NewDesc n s x h ls) = x"
  by (simp_all add: NewDesc_def)

lemma NewDesc_inject [simp]:
  "NewDesc n s x h ls = NewDesc n' s' x' h' ls' \<longleftrightarrow>
     n = n' \<and> s = s' \<and> x = x' \<and> h = h' \<and> ls = ls'"
  by (auto simp: NewDesc_def)

record HistogramOpts =
  Namespace :: string
  Subsystem :: string
  Name :: string
  Buckets :: "float64 list"
  Help :: string
  ConstLabels :: "(string \<times> string) list"

record rttHistogram =
  opts :: HistogramOpts
  observed :: "float64 list"

definition Observe :: "float64 \<Rightarrow> rttHistogram \<Rightarrow> rttHistogram" where
  "Observe v h = h\<lparr>observed := observed h @ [v]\<rparr>"

datatype Metric = ConstMetric Desc float64 "string list" | HistMetric rttHistogram

datatype DescItem = ConstDesc Desc | HistDesc HistogramOpts

abbreviation gt0 :: "float64 \<Rightarrow> bool" where
  "gt0 x \<equiv> fless (Fin 0) x"

section \<open>Library functions\<close>

text \<open>
  \<open>strconv.ParseFloat\<close> (value and error), \<open>pem.Decode\<close> (the bytes of the first block),
  \<open>sha256.Sum256\<close>, and whether \<open>prometheus.NewHistogram\<close> accepts its options (it panics
  otherwise). Its documentation asks for buckets in strictly increasing order.
\<close>

record ext =
  ParseFloat :: "string \<Rightarrow> float64 \<times> error option"
  pem_Decode :: "string \<Rightarrow> byte list option"
  Sum256 :: "byte list \<Rightarrow> byte list"
  hist_ok :: "HistogramOpts \<Rightarrow> bool"

definition NewHistogram :: "ext \<Rightarrow> HistogramOpts \<Rightarrow> rttHistogram option" where
  "NewHistogram e o' = (if hist_ok e o' then Some \<lparr>opts = o', observed = []\<rparr> else None)"

fun strictly_increasing :: "float64 list \<Rightarrow> bool" where
  "strictly_increasing (x # y # zs) = (fless x y \<and> strictly_increasing (y # zs))"
| "strictly_increasing _ = True"

text \<open>Library functions for examples: histograms with increasing buckets are accepted, every
  text decodes to one byte, and the checksum is the block itself.\<close>

definition sample_ext :: ext where
  "sample_ext = \<lparr>ParseFloat = (\<lambda>_. (Fin 0, None)), pem_Decode = (\<lambda>_. Some [1]),
     Sum256 = (\<lambda>bs. bs), hist_ok = (\<lambda>o'. strictly_increasing (Buckets o'))\<rparr>"

lemma opts_Observe [simp]: "opts (Observe v h) = opts h"
  and observed_Observe [simp]: "observed (Observe v h) = observed h @ [v]"
  by (simp_all add: Observe_def)

text \<open>Observing every positive value of a list, as the \<open>ProcessResult\<close> loops do.\<close>

lemma fold_Observe:
  "fold (\<lambda>v h. if gt0 v then Observe v h else h) vs h =
     h\<lparr>observed := observed h @ filter gt0 vs\<rparr>"
  by (induction vs arbitrary: h) (simp_all add: Observe_def)

section \<open>The interface of an exporter\<close>

text \<open>
  Every \<open>Export\<close> method may read and write the package variables and sends metrics;
  \<open>None\<close> is a panic. The laws: what it sends was announced by \<open>Describe\<close> and carries one value
  per label of its description (the condition under which \<open>MustNewConstMetric\<close> does not panic),
  and it does not panic for a probe whose coordinates can be printed. A run of exports keeps the laws.
\<close>

record pkg_vars =
  certFingerprint :: string

definition described :: "Desc list \<Rightarrow> Metric \<Rightarrow> bool" where
  "described ds m = (case m of
      ConstMetric d v ls \<Rightarrow> d \<in> set ds \<and> length ls = length (d_labels d)
    | HistMetric h \<Rightarrow> False)"

lemma described_Const [simp]:
  "described ds (ConstMetric d v ls) \<longleftrightarrow> d \<in> set ds \<and> length ls = length (d_labels d)"
  by (simp add: described_def)

fun export_all :: "(pkg_vars \<Rightarrow> Result \<Rightarrow> Probe option \<Rightarrow> (Metric list \<times> pkg_vars) option) \<Rightarrow>
    pkg_vars \<Rightarrow> (Result \<times> Probe option) list \<Rightarrow> (Metric list \<times> pkg_vars) option" where
  "export_all export g [] = Some ([], g)"
| "export_all export g ((r, p) # rs) =
     do { (ms, g') \<leftarrow> export g r p; (ns, g'') \<leftarrow> export_all export g' rs; Some (ms @ ns, g'') }"

definition printable_probe :: "Probe option \<Rightarrow> bool" where
  "printable_probe p = (case p of None \<Rightarrow> False | Some pr \<Rightarrow> length (Coordinates pr) \<noteq> 1)"

lemma printable_probeE:
  assumes "printable_probe p"
  obtains pr lat where "p = Some pr" and "Latitude pr = Some lat"
proof (cases p)
  case (Some pr)
  with assms have "Latitude pr \<noteq> None"
    by (cases "Coordinates pr" rule: list.exhaust) (auto simp: printable_probe_def Latitude_def)
  with Some that show ?thesis by blast
qed (use assms in \<open>simp add: printable_probe_def\<close>)

locale exporter_contract =
  fixes export :: "pkg_vars \<Rightarrow> Result \<Rightarrow> Probe option \<Rightarrow> (Metric list \<times> pkg_vars) option"
    and describe :: "Desc list"
  assumes sends_described: "export g r p = Some (ms, g') \<Longrightarrow> list_all (described describe) ms"
    and no_panic: "printable_probe p \<Longrightarrow> export g r p \<noteq> None"
begin

lemma export_all_described:
  "export_all export g rs = Some (ms, g') \<Longrightarrow> list_all (described describe) ms"
proof (induction rs arbitrary: g ms g')
  case (Cons rp rs)
  obtain r p where rp: "rp = (r, p)" by fastforce
  with Cons.prems obtain ms1 g1 ms2
    where "export g r p = Some (ms1, g1)" and "export_all export g1 rs = Some (ms2, g')"
      and "ms = ms1 @ ms2"
    by (auto split: Option.bind_splits)
  with Cons.IH sends_described show ?case by simp
qed simp

lemma export_all_no_panic:
  "list_all (\<lambda>(r, p). printable_probe p) rs \<Longrightarrow> export_all export g rs \<noteq> None"
proof (induction rs arbitrary: g)
  case (Cons rp rs)
  obtain r p where rp: "rp = (r, p)" by fastforce
  with Cons.prems no_panic [of p g r] obtain ms1 g1 where e: "export g r p = Some (ms1, g1)"
    by fastforce
  from Cons rp have "export_all export g1 rs \<noteq> None" by simp
  with rp e show ?case by auto
qed simp

end

text \<open>An exporter that touches no package variable.\<close>

locale stateless_exporter =
  fixes export0 :: "Result \<Rightarrow> Probe option \<Rightarrow> Metric list option"
    and describe :: "Desc list"
  assumes sends_described0: "export0 r p = Some ms \<Longrightarrow> list_all (described describe) ms"
    and no_panic0: "printable_probe p \<Longrightarrow> export0 r p \<noteq> None"

sublocale stateless_exporter \<subseteq> exporter_contract "\<lambda>g r p. map_option (\<lambda>ms. (ms, g)) (export0 r p)" describe
  by unfold_locales (use sends_described0 no_panic0 in auto)

end
