(* ===== verification/Ping.thy ===== *)
theory Ping
  imports Results
begin

text \<open>
  Package \<open>ping\<close>: the exporter (\<open>ping/exporter.go\<close>) and the round trip time histogram
  (\<open>ping/rtt_histogram.go\<close>). The exporter is interpreted in \<open>stateless_exporter\<close>.
\<close>

definition ping_ns :: string where "ping_ns = ''atlas''"
definition ping_sub :: string where "ping_sub = ''ping''"

definition ping_labels :: "string list" where
  "ping_labels = [''measurement'', ''probe'', ''dst_addr'', ''dst_name'', ''asn'', ''ip_version'',
     ''country_code'', ''lat'', ''long'']"

definition ping_successDesc :: Desc where
  "ping_successDesc = NewDesc ping_ns ping_sub ''success'' ''Destination was reachable'' ping_labels"
definition ping_minLatencyDesc :: Desc where
  "ping_minLatencyDesc = NewDesc ping_ns ping_sub ''min_latency'' ''Minimum latency'' ping_labels"
definition ping_maxLatencyDesc :: Desc where
  "ping_maxLatencyDesc = NewDesc ping_ns ping_sub ''max_latency'' ''Maximum latency'' ping_labels"
definition ping_avgLatencyDesc :: Desc where
  "ping_avgLatencyDesc = NewDesc ping_ns ping_sub ''avg_latency'' ''Average latency'' ping_labels"
definition ping_sentDesc :: Desc where
  "ping_sentDesc = NewDesc ping_ns ping_sub ''sent'' ''Number of sent icmp requests'' ping_labels"
definition ping_rcvdDesc :: Desc where
  "ping_rcvdDesc = NewDesc ping_ns ping_sub ''received'' ''Number of received icmp repsponses'' ping_labels"
definition ping_dupDesc :: Desc where
  "ping_dupDesc = NewDesc ping_ns ping_sub ''dup'' ''Number of duplicate icmp repsponses'' ping_labels"
definition ping_ttlDesc :: Desc where
  "ping_ttlDesc = NewDesc ping_ns ping_sub ''ttl'' ''Time-to-live field in the response'' ping_labels"
definition ping_sizeDesc :: Desc where
  "ping_sizeDesc = NewDesc ping_ns ping_sub ''size'' ''Size of ICMP packet'' ping_labels"

lemmas ping_descs = ping_successDesc_def ping_minLatencyDesc_def ping_maxLatencyDesc_def
  ping_avgLatencyDesc_def ping_sentDesc_def ping_rcvdDesc_def ping_dupDesc_def ping_ttlDesc_def
  ping_sizeDesc_def ping_labels_def

text \<open>A nil probe or an unprintable coordinate panics while the labels are built.\<close>

definition ping_Export :: "string \<Rightarrow> Result \<Rightarrow> Probe option \<Rightarrow> Metric list option" where
  "ping_Export mid res probe = do {
     pr \<leftarrow> probe;
     lat \<leftarrow> Latitude pr;
     let labelValues = [mid, Itoa (ID pr), DstAddr res, DstName res,
       Itoa (ASNForIPVersion pr (Af res)), Itoa (Af res), CountryCode pr, lat, Longitude pr];
     Some (
       (if gt0 (Min_of res)
        then [ConstMetric ping_successDesc (Fin 1) labelValues,
              ConstMetric ping_minLatencyDesc (Min_of res) labelValues,
              ConstMetric ping_maxLatencyDesc (Max_of res) labelValues,
              ConstMetric ping_avgLatencyDesc (Avg_of res) labelValues]
        else [ConstMetric ping_successDesc (Fin 0) labelValues]) @
       [ConstMetric ping_sentDesc (float64_of_int (Sent res)) labelValues,
        ConstMetric ping_rcvdDesc (float64_of_int (Rcvd res)) labelValues,
        ConstMetric ping_dupDesc (float64_of_int (Dup res)) labelValues,
        ConstMetric ping_ttlDesc (float64_of_int (Ttl res)) labelValues,
        ConstMetric ping_sizeDesc (float64_of_int (Size_of res)) labelValues])
   }"

definition ping_Describe :: "Desc list" where
  "ping_Describe = [ping_successDesc, ping_minLatencyDesc, ping_maxLatencyDesc, ping_avgLatencyDesc,
     ping_sentDesc, ping_rcvdDesc, ping_dupDesc, ping_ttlDesc, ping_sizeDesc]"

definition ping_newRttHistogram ::
    "ext \<Rightarrow> string \<Rightarrow> string \<Rightarrow> float64 list option \<Rightarrow> rttHistogram option" where
  "ping_newRttHistogram e mid ipVersion buckets =
     NewHistogram e \<lparr>Namespace = ping_ns, Subsystem = ping_sub, Name = ''rtt_hist'',
       Buckets = (case buckets of None \<Rightarrow> [Fin 10, Fin 20, Fin 50, Fin 100] | Some b \<Rightarrow> b),
       Help = ''Histogram of round trip times over all ICMP requests'',
       ConstLabels = [(''measurement'', mid), (''ip_version'', ipVersion)]\<rparr>"

definition ping_ProcessResult :: "Result \<Rightarrow> rttHistogram \<Rightarrow> rttHistogram" where
  "ping_ProcessResult r h = fold (\<lambda>p h. if gt0 p then Observe p h else h) (PingResults r) h"

lemma ping_ProcessResult_observed [go_simps]:
  "ping_ProcessResult r h = h\<lparr>observed := observed h @ filter gt0 (PingResults r)\<rparr>"
  by (simp add: ping_ProcessResult_def fold_Observe)

interpretation ping_exp: stateless_exporter "ping_Export mid" ping_Describe for mid
proof unfold_locales
  fix r p ms assume "ping_Export mid r p = Some ms"
  then show "list_all (described ping_Describe) ms"
    by (auto simp: ping_Export_def Let_def ping_Describe_def ping_descs split: Option.bind_splits)
next
  fix r p assume "printable_probe p"
  then show "ping_Export mid r p \<noteq> None"
    by (elim printable_probeE) (simp add: ping_Export_def Let_def)
qed

end
