(* ===== verification/Traceroute.thy ===== *)
theory Traceroute
  imports Results
begin

text \<open>
  Package \<open>traceroute\<close>: the evaluation of the last hop (\<open>traceroute/traceroute.go\<close>), the
  exporter (\<open>exporter.go\<close>), the validator (\<open>result_validator.go\<close>) and the histogram
  (\<open>rtt_histogram.go\<close>).
\<close>

definition traceroute_ns :: string where "traceroute_ns = ''atlas''"
definition traceroute_sub :: string where "traceroute_sub = ''traceroute''"

text \<open>The loop over the replies of the last hop, with \<open>(success, rtt)\<close> as its state.\<close>

definition processLastHop :: "Result \<Rightarrow> float64 \<times> float64" where
  "processLastHop r =
     (if length (TracerouteResults r) = 0 then (Fin 0, Fin 0)
      else let repl = TracerouteResults r ! (length (TracerouteResults r) - 1)
           in fold (\<lambda>rep (success, rtt).
                (if From rep = DstAddr r then Fin 1 else success,
                 if length repl > 0 then Reply_Rtt (repl ! (length repl - 1)) else rtt))
              repl (Fin 0, Fin 0))"

definition traceroute_labels :: "string list" where
  "traceroute_labels = [''measurement'', ''probe'', ''dst_addr'', ''dst_name'', ''asn'',
     ''ip_version'', ''protocol'', ''country_code'', ''lat'', ''long'']"

definition traceroute_successDesc :: Desc where
  "traceroute_successDesc = NewDesc traceroute_ns traceroute_sub ''success'' ''Destination was reachable'' traceroute_labels"
definition traceroute_hopDesc :: Desc where
  "traceroute_hopDesc = NewDesc traceroute_ns traceroute_sub ''hops'' ''Number of hops'' traceroute_labels"
definition traceroute_rttDesc :: Desc where
  "traceroute_rttDesc = NewDesc traceroute_ns traceroute_sub ''rtt'' ''Round trip time in ms'' traceroute_labels"

lemmas traceroute_descs = traceroute_successDesc_def traceroute_hopDesc_def traceroute_rttDesc_def
  traceroute_labels_def

definition traceroute_Export :: "string \<Rightarrow> Result \<Rightarrow> Probe option \<Rightarrow> Metric list option" where
  "traceroute_Export mid res probe = do {
     pr \<leftarrow> probe;
     lat \<leftarrow> Latitude pr;
     let labelValues = [mid, Itoa (ID pr), DstAddr res, DstName res,
       Itoa (ASNForIPVersion pr (Af res)), Itoa (Af res), Proto res, CountryCode pr, lat, Longitude pr];
     let (success, rtt) = processLastHop res;
     let hops = float64_of_int (int (length (TracerouteResults res)));
     Some (
       [ConstMetric traceroute_successDesc success labelValues,
        ConstMetric traceroute_hopDesc hops labelValues] @
       (if gt0 rtt then [ConstMetric traceroute_rttDesc rtt labelValues] else []))
   }"

definition traceroute_Describe :: "Desc list" where
  "traceroute_Describe = [traceroute_successDesc, traceroute_hopDesc, traceroute_rttDesc]"

text \<open>\<open>None\<close> is the nil dereference of a missing probe, as in the default validator.\<close>

definition tracerouteResultValidator_IsValid :: "Result \<Rightarrow> Probe option \<Rightarrow> bool option" where
  "tracerouteResultValidator_IsValid res probe =
     map_option (\<lambda>pr. ASNForIPVersion pr (Af res) > 0 \<and> length (TracerouteResults res) > 1) probe"

definition traceroute_newRttHistogram ::
    "ext \<Rightarrow> string \<Rightarrow> string \<Rightarrow> float64 list option \<Rightarrow> rttHistogram option" where
  "traceroute_newRttHistogram e mid ipVersion buckets =
     NewHistogram e \<lparr>Namespace = traceroute_ns, Subsystem = traceroute_sub, Name = ''rtt_hist'',
       Buckets = (case buckets of None \<Rightarrow> [Fin 10, Fin 20, Fin 50, Fin 100] | Some b \<Rightarrow> b),
       Help = ''Histogram of round trip times over all traceroute requests'',
       ConstLabels = [(''measurement'', mid), (''ip_version'', ipVersion)]\<rparr>"

definition traceroute_ProcessResult :: "Result \<Rightarrow> rttHistogram \<Rightarrow> rttHistogram" where
  "traceroute_ProcessResult r h =
     (let (success, rtt) = processLastHop r in
      if success = Fin 1 \<and> gt0 rtt then Observe rtt h else h)"

section \<open>Lemmas\<close>

lemma last_hop_loop:
  "fold (\<lambda>rep (success, rtt). (if From rep = dst then Fin 1 else success, if b then x else rtt)) reps (s, t)
     = (if \<exists>rep \<in> set reps. From rep = dst then Fin 1 else s, if b \<and> reps \<noteq> [] then x else t)"
  by (induction reps arbitrary: s t) auto

lemma processLastHop_eq:
  "processLastHop r =
     (if TracerouteResults r = [] \<or> last (TracerouteResults r) = [] then (Fin 0, Fin 0)
      else (if \<exists>rep \<in> set (last (TracerouteResults r)). From rep = DstAddr r then Fin 1 else Fin 0,
            Reply_Rtt (last (last (TracerouteResults r)))))"
  by (auto simp: processLastHop_def Let_def last_hop_loop last_conv_nth)

interpretation traceroute_exp: stateless_exporter "traceroute_Export mid" traceroute_Describe for mid
proof unfold_locales
  fix r p ms assume "traceroute_Export mid r p = Some ms"
  then show "list_all (described traceroute_Describe) ms"
    by (auto simp: traceroute_Export_def Let_def traceroute_Describe_def traceroute_descs
      split: Option.bind_splits prod.splits)
next
  fix r p assume "printable_probe p"
  then show "traceroute_Export mid r p \<noteq> None"
    by (elim printable_probeE) (simp add: traceroute_Export_def Let_def split: prod.splits)
qed

section \<open>Properties\<close>

text \<open>C31: the success metric of a traceroute is 1 exactly when the destination address is among the
  replies of the last hop, and a round trip time is exported exactly when the last reply of the last
  hop has a positive one, which is then the value exported.\<close>

theorem traceroute_last_hop:
  assumes "traceroute_Export mid r p = Some ms"
  shows "(\<exists>ls. ConstMetric traceroute_successDesc (Fin 1) ls \<in> set ms) =
      (\<exists>hops hop rep. TracerouteResults r = hops @ [hop] \<and> rep \<in> set hop \<and> From rep = DstAddr r) \<and>
    (\<forall>v. (\<exists>ls. ConstMetric traceroute_rttDesc v ls \<in> set ms) =
      (\<exists>hops hop rep. TracerouteResults r = hops @ [hop @ [rep]] \<and> v = Reply_Rtt rep \<and> gt0 v))"
proof -
  obtain lv where ms: "ms = (case processLastHop r of (success, rtt) \<Rightarrow>
      [ConstMetric traceroute_successDesc success lv,
       ConstMetric traceroute_hopDesc (float64_of_int (int (length (TracerouteResults r)))) lv] @
      (if gt0 rtt then [ConstMetric traceroute_rttDesc rtt lv] else []))"
    using assms by (auto simp: traceroute_Export_def Let_def split: Option.bind_splits prod.splits)
  have d: "traceroute_successDesc \<noteq> traceroute_hopDesc" "traceroute_successDesc \<noteq> traceroute_rttDesc"
    "traceroute_hopDesc \<noteq> traceroute_rttDesc"
    by (simp_all add: traceroute_descs)
  obtain s t where st: "processLastHop r = (s, t)" by fastforce
  have succ: "(\<exists>ls. ConstMetric traceroute_successDesc (Fin 1) ls \<in> set ms) \<longleftrightarrow> fst (processLastHop r) = Fin 1"
    using d by (auto simp: ms st)
  have rtt: "(\<exists>ls. ConstMetric traceroute_rttDesc v ls \<in> set ms) \<longleftrightarrow> v = snd (processLastHop r) \<and> gt0 v" for v
    using d by (auto simp: ms st)
  show ?thesis unfolding succ rtt processLastHop_eq
    by (cases "TracerouteResults r" rule: rev_cases; cases "last (TracerouteResults r)" rule: rev_cases) auto
qed

theorem traceroute_last_hop_witness:
  "\<exists>ms ls. traceroute_Export ''5001''
     (zero_Result\<lparr>DstAddr := ''9.9.9.9'', TracerouteResults := [[], [\<lparr>From = ''9.9.9.9'', Reply_Rtt = Fin 7\<rparr>]]\<rparr>)
     (Some sample_probe) = Some ms \<and> ConstMetric traceroute_successDesc (Fin 1) ls \<in> set ms"
proof -
  let ?r = "zero_Result\<lparr>DstAddr := ''9.9.9.9'', TracerouteResults := [[], [\<lparr>From = ''9.9.9.9'', Reply_Rtt = Fin 7\<rparr>]]\<rparr>"
  have "printable_probe (Some sample_probe)" by (simp add: printable_probe_def sample_probe_def)
  then obtain ms where ms: "traceroute_Export ''5001'' ?r (Some sample_probe) = Some ms"
    using traceroute_exp.no_panic0 [of "Some sample_probe" "''5001''" ?r] by blast
  have "\<exists>hops hop rep. TracerouteResults ?r = hops @ [hop] \<and> rep \<in> set hop \<and> From rep = DstAddr ?r"
    by (rule exI [of _ "[[]]"]) simp
  with ms traceroute_last_hop [OF ms] show ?thesis by blast
qed

end
