(* ===== verification/Ntp.thy ===== *)
theory Ntp
  imports Results
begin

text \<open>Package \<open>ntp\<close>: the exporter (\<open>ntp/exporter.go\<close>); it has no histogram.\<close>

definition ntp_ns :: string where "ntp_ns = ''atlas''"
definition ntp_sub :: string where "ntp_sub = ''ntp''"

definition ntp_labels :: "string list" where
  "ntp_labels = [''measurement'', ''probe'', ''dst_addr'', ''dst_name'', ''asn'', ''ip_version'',
     ''country_code'', ''lat'', ''long'']"

definition ntp_pollDesc :: Desc where
  "ntp_pollDesc = NewDesc ntp_ns ntp_sub ''poll'' ''Poll'' ntp_labels"
definition ntp_precisionDesc :: Desc where
  "ntp_precisionDesc = NewDesc ntp_ns ntp_sub ''precision'' ''Precision'' ntp_labels"
definition ntp_roolDelayDesc :: Desc where
  "ntp_roolDelayDesc = NewDesc ntp_ns ntp_sub ''root_delay'' ''Root delay'' ntp_labels"
definition ntp_rootDispersionDesc :: Desc where
  "ntp_rootDispersionDesc = NewDesc ntp_ns ntp_sub ''root_dispersion'' ''Root dispersion'' ntp_labels"
definition ntp_ntpVersionDesc :: Desc where
  "ntp_ntpVersionDesc = NewDesc ntp_ns ntp_sub ''ntp_version'' ''NTP Version'' ntp_labels"

lemmas ntp_descs = ntp_pollDesc_def ntp_precisionDesc_def ntp_roolDelayDesc_def
  ntp_rootDispersionDesc_def ntp_ntpVersionDesc_def ntp_labels_def

definition ntp_Export :: "string \<Rightarrow> Result \<Rightarrow> Probe option \<Rightarrow> Metric list option" where
  "ntp_Export mid res probe = do {
     pr \<leftarrow> probe;
     lat \<leftarrow> Latitude pr;
     let labelValues = [mid, Itoa (ID pr), DstAddr res, DstName res,
       Itoa (ASNForIPVersion pr (Af res)), Itoa (Af res), CountryCode pr, lat, Longitude pr];
     Some
       [ConstMetric ntp_pollDesc (Poll res) labelValues,
        ConstMetric ntp_precisionDesc (Precision res) labelValues,
        ConstMetric ntp_roolDelayDesc (RootDelay res) labelValues,
        ConstMetric ntp_rootDispersionDesc (RootDispersion res) labelValues,
        ConstMetric ntp_ntpVersionDesc (float64_of_int (Version res)) labelValues]
   }"

definition ntp_Describe :: "Desc list" where
  "ntp_Describe = [ntp_pollDesc, ntp_precisionDesc, ntp_roolDelayDesc, ntp_rootDispersionDesc,
     ntp_ntpVersionDesc]"

interpretation ntp_exp: stateless_exporter "ntp_Export mid" ntp_Describe for mid
proof unfold_locales
  fix r p ms assume "ntp_Export mid r p = Some ms"
  then show "list_all (described ntp_Describe) ms"
    by (auto simp: ntp_Export_def Let_def ntp_Describe_def ntp_descs split: Option.bind_splits)
next
  fix r p assume "printable_probe p"
  then show "ntp_Export mid r p \<noteq> None"
    by (elim printable_probeE) (simp add: ntp_Export_def Let_def)
qed

end
