(* ===== verification/Dns.thy ===== *)
theory Dns
  imports Results
begin

text \<open>
  Package \<open>dns\<close>: the name server identifier (\<open>extractNsid\<close>, \<open>isASCIIPrintable\<close>), the exporter
  (\<open>dns/exporter.go\<close>) and the histogram (\<open>dns/rtt_histogram.go\<close>). Unpacking the answer buffer is a
  library call, whose outcome is a field of the result.
\<close>

definition dns_ns :: string where "dns_ns = ''atlas''"
definition dns_sub :: string where "dns_sub = ''dns''"

definition dns_labels :: "string list" where
  "dns_labels = [''measurement'', ''probe'', ''dst_addr'', ''asn'', ''ip_version'', ''country_code'',
     ''lat'', ''long'', ''nsid'']"

definition dns_successDesc :: Desc where
  "dns_successDesc = NewDesc dns_ns dns_sub ''success'' ''Destination was reachable'' dns_labels"
definition dns_rttDesc :: Desc where
  "dns_rttDesc = NewDesc dns_ns dns_sub ''rtt'' ''Roundtrip time in ms'' dns_labels"

lemmas dns_descs = dns_successDesc_def dns_rttDesc_def dns_labels_def

fun isASCIIPrintable :: "byte list \<Rightarrow> bool" where
  "isASCIIPrintable [] = True"
| "isASCIIPrintable (b # bs) = (if b < 32 \<or> b > 126 then False else isASCIIPrintable bs)"

text \<open>The loop over the options: the first NSID option that decodes decides.\<close>

fun nsid_loop :: "edns_option list \<Rightarrow> string" where
  "nsid_loop [] = []"
| "nsid_loop (EDNS0_NSID nsid # os) =
     (case DecodeString nsid of
        Some raw \<Rightarrow> if isASCIIPrintable raw then string_of_bytes raw else EncodeToString raw
      | None \<Rightarrow> nsid_loop os)"
| "nsid_loop (EDNS0_other # os) = nsid_loop os"

definition extractNsid :: "dns_result \<Rightarrow> string" where
  "extractNsid result =
     (case UnpackAbuf result of
        UnpackError err \<Rightarrow> []
      | NoMsg \<Rightarrow> []
      | Msg None \<Rightarrow> []
      | Msg (Some options) \<Rightarrow> nsid_loop options)"

definition dns_Export :: "string \<Rightarrow> bool \<Rightarrow> Result \<Rightarrow> Probe option \<Rightarrow> Metric list option" where
  "dns_Export mid nsidEnabled res probe = do {
     let nsid = (if nsidEnabled
                 then (case DnsResult res of Some d \<Rightarrow> extractNsid d | None \<Rightarrow> []) else []);
     pr \<leftarrow> probe;
     lat \<leftarrow> Latitude pr;
     let labelValues = [mid, Itoa (ID pr), DstAddr res, Itoa (ASNForIPVersion pr (Af res)),
       Itoa (Af res), CountryCode pr, lat, Longitude pr, nsid];
     let rtt = (case DnsResult res of Some d \<Rightarrow> D_Rt d | None \<Rightarrow> Fin 0);
     Some (if gt0 rtt
           then [ConstMetric dns_successDesc (Fin 1) labelValues, ConstMetric dns_rttDesc rtt labelValues]
           else [ConstMetric dns_successDesc (Fin 0) labelValues])
   }"

definition dns_Describe :: "Desc list" where
  "dns_Describe = [dns_successDesc, dns_rttDesc]"

definition dns_newRttHistogram ::
    "ext \<Rightarrow> string \<Rightarrow> string \<Rightarrow> float64 list option \<Rightarrow> rttHistogram option" where
  "dns_newRttHistogram e mid ipVersion buckets =
     NewHistogram e \<lparr>Namespace = dns_ns, Subsystem = dns_sub, Name = ''rtt_hist'',
       Buckets = (case buckets of None \<Rightarrow> [Fin 10, Fin 20, Fin 50, Fin 100] | Some b \<Rightarrow> b),
       Help = ''Histogram of round trip times over all DNS requests'',
       ConstLabels = [(''measurement'', mid), (''ip_version'', ipVersion)]\<rparr>"

definition dns_ProcessResult :: "Result \<Rightarrow> rttHistogram \<Rightarrow> rttHistogram" where
  "dns_ProcessResult r h =
     (case DnsResult r of
        None \<Rightarrow> h
      | Some d \<Rightarrow> if gt0 (D_Rt d) then Observe (D_Rt d) h else h)"

section \<open>Lemmas\<close>

definition ascii_printable_char :: "char \<Rightarrow> bool" where
  "ascii_printable_char c \<longleftrightarrow> 32 \<le> (of_char c :: nat) \<and> (of_char c :: nat) \<le> 126"

lemma isASCIIPrintable_iff:
  "isASCIIPrintable bs \<longleftrightarrow> list_all ascii_printable_char (string_of_bytes bs)"
proof (induction bs)
  case (Cons b bs)
  have "unat b < 2 ^ LENGTH(8)" by (rule unsigned_less)
  then have "(of_char (char_of (unat b)) :: nat) = unat b" by simp
  then have "ascii_printable_char (char_of (unat b)) \<longleftrightarrow> \<not> (b < 32 \<or> b > 126)"
    by (auto simp: ascii_printable_char_def word_less_nat_alt not_less)
  with Cons show ?case by (simp add: string_of_bytes_def)
qed (simp add: string_of_bytes_def)

lemma EncodeToString_printable: "list_all ascii_printable_char (EncodeToString bs)"
  using EncodeToString_chars [of _ bs] by (force simp: list_all_iff ascii_printable_char_def)

lemma nsid_loop_printable: "list_all ascii_printable_char (nsid_loop os)"
  by (induction os rule: nsid_loop.induct)
    (auto simp: isASCIIPrintable_iff EncodeToString_printable split: option.splits)

interpretation dns_exp: stateless_exporter "dns_Export mid nsidEnabled" dns_Describe for mid nsidEnabled
proof unfold_locales
  fix r p ms assume "dns_Export mid nsidEnabled r p = Some ms"
  then show "list_all (described dns_Describe) ms"
    by (auto simp: dns_Export_def Let_def dns_Describe_def dns_descs split: Option.bind_splits if_splits)
next
  fix r p assume "printable_probe p"
  then show "dns_Export mid nsidEnabled r p \<noteq> None"
    by (elim printable_probeE) (simp add: dns_Export_def Let_def)
qed

section \<open>Properties\<close>

text \<open>The NSID label is printable ASCII, whatever the answer holds: printable identifiers are passed
  on as they are and all others as hexadecimal digits.\<close>

lemma extractNsid_printable: "list_all ascii_printable_char (extractNsid d)"
  by (auto simp: extractNsid_def nsid_loop_printable split: unpacked.splits option.splits)

text \<open>C32: a server that sends its identifier as bytes (hex-encoded by the DNS library, possibly after
  options of other kinds or undecodable NSIDs) gets it back in the label: as the same text when it is
  printable, otherwise as a hex string that decodes to the same bytes.\<close>

theorem extractNsid_faithful:
  assumes "UnpackAbuf d = Msg (Some (os @ EDNS0_NSID (EncodeToString raw) # os'))"
    and "\<forall>nsid. EDNS0_NSID nsid \<in> set os \<longrightarrow> DecodeString nsid = None"
  shows "(isASCIIPrintable raw \<longrightarrow> extractNsid d = string_of_bytes raw) \<and>
    (\<not> isASCIIPrintable raw \<longrightarrow> DecodeString (extractNsid d) = Some raw)"
proof -
  have "nsid_loop (os @ os'') = nsid_loop os''" for os''
    using assms(2) by (induction os rule: nsid_loop.induct) auto
  then show ?thesis
    using assms(1) by (simp add: extractNsid_def DecodeString_EncodeToString)
qed

theorem extractNsid_faithful_witness:
  "extractNsid \<lparr>D_Rt = Fin 5, UnpackAbuf = Msg (Some [EDNS0_other, EDNS0_NSID (EncodeToString [110, 115, 49])])\<rparr>
     = ''ns1''"
proof -
  have p: "isASCIIPrintable [110, 115, 49]" by simp
  have "UnpackAbuf \<lparr>D_Rt = Fin 5, UnpackAbuf = Msg (Some [EDNS0_other, EDNS0_NSID (EncodeToString [110, 115, 49])])\<rparr>
    = Msg (Some ([EDNS0_other] @ EDNS0_NSID (EncodeToString [110, 115, 49]) # []))" by simp
  from extractNsid_faithful [OF this] p show ?thesis
    by (simp add: string_of_bytes_def char_of_def bit_0)
qed

end
