(* ===== verification/Http.thy ===== *)
theory Http
  imports Results
begin

text \<open>
  Package \<open>http\<close>: the exporter (\<open>http/exporter.go\<close>), which sends one group of metrics per HTTP
  result, and the histogram (\<open>http/rtt_histogram.go\<close>).
\<close>

definition http_ns :: string where "http_ns = ''atlas''"
definition http_sub :: string where "http_sub = ''http''"

definition http_labels :: "string list" where
  "http_labels = [''measurement'', ''probe'', ''dst_addr'', ''asn'', ''ip_version'', ''uri'',
     ''method'', ''country_code'', ''lat'', ''long'']"

definition http_successDesc :: Desc where
  "http_successDesc = NewDesc http_ns http_sub ''success'' ''Destination was reachable'' http_labels"
definition http_resultDesc :: Desc where
  "http_resultDesc = NewDesc http_ns http_sub ''result'' ''Code returned from http server'' http_labels"
definition http_httpVerDesc :: Desc where
  "http_httpVerDesc = NewDesc http_ns http_sub ''version'' ''HTTP version used for the request'' http_labels"
definition http_bodySizeDesc :: Desc where
  "http_bodySizeDesc = NewDesc http_ns http_sub ''body_size'' ''Body size in bytes'' http_labels"
definition http_headerSizeDesc :: Desc where
  "http_headerSizeDesc = NewDesc http_ns http_sub ''header_size'' ''Header size in bytes'' http_labels"
definition http_rttDesc :: Desc where
  "http_rttDesc = NewDesc http_ns http_sub ''rtt'' ''Round trip time in ms'' http_labels"
definition http_dnsErrDesc :: Desc where
  "http_dnsErrDesc = NewDesc http_ns http_sub ''dns_error'' ''A DNS error occurred (0 if not)'' http_labels"

lemmas http_descs = http_successDesc_def http_resultDesc_def http_httpVerDesc_def
  http_bodySizeDesc_def http_headerSizeDesc_def http_rttDesc_def http_dnsErrDesc_def http_labels_def

text \<open>The body of the loop over the HTTP results. A version that does not parse is logged and exported
  with the value \<open>ParseFloat\<close> returns along with the error.\<close>

definition http_Export_one :: "ext \<Rightarrow> string \<Rightarrow> Result \<Rightarrow> Probe option \<Rightarrow> http_result \<Rightarrow> Metric list option" where
  "http_Export_one e mid res probe h = do {
     pr \<leftarrow> probe;
     lat \<leftarrow> Latitude pr;
     let labelValues = [mid, Itoa (ID pr), H_DstAddr h, Itoa (ASNForIPVersion pr (H_Af h)),
       Itoa (H_Af h), Uri res, H_Method h, CountryCode pr, lat, Longitude pr];
     let dnsError = (if length (H_Dnserr h) > 0 then 1 else 0 :: int);
     let httpVer = fst (ParseFloat e (H_Ver h));
     Some (
       [ConstMetric http_resultDesc (float64_of_int (H_Res h)) labelValues,
        ConstMetric http_httpVerDesc httpVer labelValues,
        ConstMetric http_bodySizeDesc (float64_of_int (H_Bsize h)) labelValues,
        ConstMetric http_headerSizeDesc (float64_of_int (H_Hsize h)) labelValues,
        ConstMetric http_dnsErrDesc (float64_of_int dnsError) labelValues] @
       (if gt0 (H_Rt h)
        then [ConstMetric http_successDesc (Fin 1) labelValues,
              ConstMetric http_rttDesc (H_Rt h) labelValues]
        else [ConstMetric http_successDesc (Fin 0) labelValues]))
   }"

fun http_Export_loop :: "ext \<Rightarrow> string \<Rightarrow> Result \<Rightarrow> Probe option \<Rightarrow> http_result list \<Rightarrow> Metric list option" where
  "http_Export_loop e mid res probe [] = Some []"
| "http_Export_loop e mid res probe (h # hs) = do {
     ms \<leftarrow> http_Export_one e mid res probe h;
     ns \<leftarrow> http_Export_loop e mid res probe hs;
     Some (ms @ ns)
   }"

definition http_Export :: "ext \<Rightarrow> string \<Rightarrow> Result \<Rightarrow> Probe option \<Rightarrow> Metric list option" where
  "http_Export e mid res probe = http_Export_loop e mid res probe (HttpResults res)"

definition http_Describe :: "Desc list" where
  "http_Describe = [http_successDesc, http_resultDesc, http_httpVerDesc, http_bodySizeDesc,
     http_headerSizeDesc, http_rttDesc, http_dnsErrDesc]"

definition http_newRttHistogram ::
    "ext \<Rightarrow> string \<Rightarrow> string \<Rightarrow> float64 list option \<Rightarrow> rttHistogram option" where
  "http_newRttHistogram e mid ipVersion buckets =
     NewHistogram e \<lparr>Namespace = http_ns, Subsystem = http_sub, Name = ''rtt_hist'',
       Buckets = (case buckets of None \<Rightarrow> [Fin 100, Fin 200, Fin 500, Fin 1000] | Some b \<Rightarrow> b),
       Help = ''Histogram of round trip times over all HTTP requests'',
       ConstLabels = [(''measurement'', mid), (''ip_version'', ipVersion)]\<rparr>"

definition http_ProcessResult :: "Result \<Rightarrow> rttHistogram \<Rightarrow> rttHistogram" where
  "http_ProcessResult r h =
     fold (\<lambda>p h. if gt0 (H_Rt p) then Observe (H_Rt p) h else h) (HttpResults r) h"

section \<open>Lemmas\<close>

lemma http_ProcessResult_observed [go_simps]:
  "http_ProcessResult r h = h\<lparr>observed := observed h @ filter gt0 (map H_Rt (HttpResults r))\<rparr>"
  using fold_Observe [of "map H_Rt (HttpResults r)" h]
  by (simp add: http_ProcessResult_def fold_map comp_def)

lemma http_loop_described:
  "http_Export_loop e mid r p hs = Some ms \<Longrightarrow> list_all (described http_Describe) ms"
proof (induction hs arbitrary: ms)
  case (Cons h hs)
  then obtain ms1 ms2 where "http_Export_one e mid r p h = Some ms1"
    and "http_Export_loop e mid r p hs = Some ms2" and "ms = ms1 @ ms2"
    by (auto split: Option.bind_splits)
  moreover from this(1) have "list_all (described http_Describe) ms1"
    by (auto simp: http_Export_one_def Let_def http_Describe_def http_descs split: Option.bind_splits)
  ultimately show ?case using Cons.IH by simp
qed simp

lemma http_loop_no_panic: "printable_probe p \<Longrightarrow> http_Export_loop e mid r p hs \<noteq> None"
proof (induction hs)
  case (Cons h hs)
  then have "http_Export_one e mid r p h \<noteq> None"
    by (elim printable_probeE) (simp add: http_Export_one_def Let_def)
  with Cons show ?case by auto
qed simp

interpretation http_exp: stateless_exporter "http_Export e mid" http_Describe for e mid
  by unfold_locales (simp_all only: http_Export_def http_loop_described http_loop_no_panic not_False_eq_True)

end
