(* ===== verification/Sslcert.thy ===== *)
theory Sslcert
  imports Results
begin

text \<open>
  Package \<open>sslcert\<close>: the exporter (\<open>sslcert/exporter.go\<close>). The fingerprint of the certificate is a
  variable of the package, written when a result carries a decodable certificate and read for
  every result, so \<open>Export\<close> takes and returns the package variables.
\<close>

definition sslcert_ns :: string where "sslcert_ns = ''atlas''"
definition sslcert_sub :: string where "sslcert_sub = ''sslcert''"

definition sslcert_labels :: "string list" where
  "sslcert_labels = [''measurement'', ''probe'', ''dst_addr'', ''asn'', ''ip_version'',
     ''country_code'', ''lat'', ''long'', ''cert_fingerprint'']"

definition sslcert_successDesc :: Desc where
  "sslcert_successDesc = NewDesc sslcert_ns sslcert_sub ''success'' ''Destination was reachable'' sslcert_labels"
definition sslcert_sslVerDesc :: Desc where
  "sslcert_sslVerDesc = NewDesc sslcert_ns sslcert_sub ''version'' ''SSL/TLS version used for the request'' sslcert_labels"
definition sslcert_rttDesc :: Desc where
  "sslcert_rttDesc = NewDesc sslcert_ns sslcert_sub ''rtt'' ''Round trip time in ms'' sslcert_labels"
definition sslcert_alertLevelDesc :: Desc where
  "sslcert_alertLevelDesc = NewDesc sslcert_ns sslcert_sub ''alert_level'' ''Status of the SSL/TLS certificate (0 = valid)'' sslcert_labels"
definition sslcert_alertDescriptionDesc :: Desc where
  "sslcert_alertDescriptionDesc = NewDesc sslcert_ns sslcert_sub ''alert_description'' ''Description for the alert level (see RIPE Atlas documentation)'' sslcert_labels"

lemmas sslcert_descs = sslcert_successDesc_def sslcert_sslVerDesc_def sslcert_rttDesc_def
  sslcert_alertLevelDesc_def sslcert_alertDescriptionDesc_def sslcert_labels_def

text \<open>The value of the package variable after the first statement of \<open>Export\<close>.\<close>

definition sslcert_fingerprint :: "ext \<Rightarrow> Result \<Rightarrow> pkg_vars \<Rightarrow> pkg_vars" where
  "sslcert_fingerprint e res g =
     (if length (Cert res) > 0
      then (case pem_Decode e (Cert res ! 0) of
              Some block \<Rightarrow> g\<lparr>certFingerprint := EncodeToString (Sum256 e block)\<rparr>
            | None \<Rightarrow> g)
      else g)"

text \<open>The rest of \<open>Export\<close>, which reads the variable (\<open>g\<close> is what it holds then).\<close>

definition sslcert_send :: "ext \<Rightarrow> string \<Rightarrow> pkg_vars \<Rightarrow> Result \<Rightarrow> Probe option \<Rightarrow> Metric list option" where
  "sslcert_send e mid g res probe = do {
     pr \<leftarrow> probe;
     lat \<leftarrow> Latitude pr;
     let labelValues = [mid, Itoa (ID pr), DstAddr res, Itoa (ASNForIPVersion pr (Af res)),
       Itoa (Af res), CountryCode pr, lat, Longitude pr, certFingerprint g];
     let ver = fst (ParseFloat e (Ver res));
     let (alertLevel, alertDescription) = (case SslcertAlert res of
         Some a \<Rightarrow> (float64_of_int (Level a), float64_of_int (Description a))
       | None \<Rightarrow> (Fin 0, Fin 0));
     Some (
       [ConstMetric sslcert_sslVerDesc ver labelValues,
        ConstMetric sslcert_alertLevelDesc alertLevel labelValues,
        ConstMetric sslcert_alertDescriptionDesc alertDescription labelValues] @
       (if gt0 (Rt res)
        then [ConstMetric sslcert_successDesc (Fin 1) labelValues,
              ConstMetric sslcert_rttDesc (Rt res) labelValues]
        else [ConstMetric sslcert_successDesc (Fin 0) labelValues]))
   }"

definition sslcert_Export ::
    "ext \<Rightarrow> string \<Rightarrow> pkg_vars \<Rightarrow> Result \<Rightarrow> Probe option \<Rightarrow> (Metric list \<times> pkg_vars) option" where
  "sslcert_Export e mid g0 res probe = do {
     let g = sslcert_fingerprint e res g0;
     ms \<leftarrow> sslcert_send e mid g res probe;
     Some (ms, g)
   }"

lemmas sslcert_Export_defs = sslcert_Export_def sslcert_send_def

definition sslcert_Describe :: "Desc list" where
  "sslcert_Describe = [sslcert_successDesc, sslcert_rttDesc, sslcert_sslVerDesc,
     sslcert_alertLevelDesc, sslcert_alertDescriptionDesc]"

interpretation sslcert_exp: exporter_contract "sslcert_Export e mid" sslcert_Describe for e mid
proof unfold_locales
  fix g r p ms g' assume "sslcert_Export e mid g r p = Some (ms, g')"
  then show "list_all (described sslcert_Describe) ms"
    by (auto simp: sslcert_Export_defs Let_def sslcert_Describe_def sslcert_descs
      split: Option.bind_splits option.splits prod.splits)
next
  fix g r p assume "printable_probe p"
  then show "sslcert_Export e mid g r p \<noteq> None"
    by (elim printable_probeE) (simp add: sslcert_Export_defs Let_def split: option.splits)
qed

section \<open>Properties\<close>

definition fingerprint_label :: "Metric \<Rightarrow> string option" where
  "fingerprint_label m = (case m of
      ConstMetric d v ls \<Rightarrow> if d_labels d = sslcert_labels \<and> length ls = 9 then Some (ls ! 8) else None
    | HistMetric h \<Rightarrow> None)"

text \<open>The fingerprint of the certificate of a result, if it has a decodable one, and the last one of a list.\<close>

definition own_fingerprint :: "ext \<Rightarrow> Result \<Rightarrow> string option" where
  "own_fingerprint e r = (if Cert r = [] then None
     else map_option (\<lambda>block. EncodeToString (Sum256 e block)) (pem_Decode e (Cert r ! 0)))"

fun last_fingerprint :: "ext \<Rightarrow> string \<Rightarrow> Result list \<Rightarrow> string" where
  "last_fingerprint e fp [] = fp"
| "last_fingerprint e fp (r # rs) = last_fingerprint e (case own_fingerprint e r of Some x \<Rightarrow> x | None \<Rightarrow> fp) rs"

lemma sslcert_fingerprint_own:
  "certFingerprint (sslcert_fingerprint e r g) = (case own_fingerprint e r of Some x \<Rightarrow> x | None \<Rightarrow> certFingerprint g)"
  by (auto simp: sslcert_fingerprint_def own_fingerprint_def split: option.splits)

lemma fingerprints_last:
  "certFingerprint (fold (sslcert_fingerprint e) rs g) = last_fingerprint e (certFingerprint g) rs"
  by (induction rs arbitrary: g) (simp_all add: sslcert_fingerprint_own)

lemma sent_fingerprint:
  "sslcert_send e mid g r p = Some ms \<Longrightarrow> m \<in> set ms \<Longrightarrow> fingerprint_label m = Some (certFingerprint g)"
  by (auto simp: sslcert_send_def Let_def fingerprint_label_def sslcert_descs
    split: Option.bind_splits option.splits prod.splits if_splits)

text \<open>C38: the fingerprint label belongs to nobody. When other scrapes run the first statement of \<open>Export\<close> for the
  results \<open>others\<close> between that statement and the labels of a result, its metrics carry the last fingerprint written by
  any of them; when neither it nor they have a decodable certificate, the one of a result exported earlier.
  A call that is not interrupted is the case without others.\<close>

theorem sslcert_stale_fingerprint:
  assumes "sslcert_send e mid (fold (sslcert_fingerprint e) others (sslcert_fingerprint e r g)) r p = Some ms"
  shows "(\<forall>m \<in> set ms. fingerprint_label m = Some (last_fingerprint e (certFingerprint g) (r # others))) \<and>
    (others = [] \<longrightarrow> sslcert_Export e mid g r p = Some (ms, sslcert_fingerprint e r g))"
  using assms sent_fingerprint [OF assms] fingerprints_last [of e others "sslcert_fingerprint e r g"]
  by (auto simp: sslcert_Export_def sslcert_fingerprint_own Let_def)

theorem sslcert_stale_fingerprint_witness:
  "\<exists>ms. sslcert_Export sample_ext ''1'' \<lparr>certFingerprint = ''ab''\<rparr> zero_Result (Some sample_probe)
      = Some (ms, \<lparr>certFingerprint = ''ab''\<rparr>) \<and> ms \<noteq> [] \<and>
    (\<forall>m \<in> set ms. fingerprint_label m = Some ''ab'')"
proof -
  let ?g = "\<lparr>certFingerprint = ''ab''\<rparr>"
  have fp: "sslcert_fingerprint sample_ext zero_Result ?g = ?g" "own_fingerprint sample_ext zero_Result = None"
    by (simp_all add: sslcert_fingerprint_def own_fingerprint_def zero_Result_def)
  obtain ms where ms: "sslcert_send sample_ext ''1'' ?g zero_Result (Some sample_probe) = Some ms" and ne: "ms \<noteq> []"
    by (simp add: sslcert_send_def Let_def Latitude_def sample_probe_def zero_Result_def)
  then have "sslcert_send sample_ext ''1'' (fold (sslcert_fingerprint sample_ext) [] (sslcert_fingerprint sample_ext zero_Result ?g))
      zero_Result (Some sample_probe) = Some ms" by (simp add: fp)
  from sslcert_stale_fingerprint [OF this] ne show ?thesis by (simp add: fp)
qed

end
