(* ===== verification/Measurement.thy ===== *)
theory Measurement
  imports Ping Traceroute Ntp Dns Http Sslcert
begin

text \<open>
  Package \<open>exporter\<close>: the interfaces \<open>Exporter\<close>, \<open>Histogram\<close> and \<open>ResultValidator\<close> with their
  implementations (method calls through an interface are a case distinction on the
  implementation), the default validator, and \<open>Measurement\<close> with its options, \<open>Add\<close>, \<open>Describe\<close>
  and \<open>Collect\<close>. The invariant \<open>Measurement_wf\<close> ties the two maps of a measurement together.
\<close>

section \<open>Interfaces\<close>

datatype Exporter = pingExporter string | tracerouteExporter string | ntpExporter string
  | dnsExporter string bool | httpExporter string | sslCertExporter string

fun Exporter_Export ::
    "ext \<Rightarrow> Exporter \<Rightarrow> pkg_vars \<Rightarrow> Result \<Rightarrow> Probe option \<Rightarrow> (Metric list \<times> pkg_vars) option" where
  "Exporter_Export e (pingExporter mid) g r p = map_option (\<lambda>ms. (ms, g)) (ping_Export mid r p)"
| "Exporter_Export e (tracerouteExporter mid) g r p = map_option (\<lambda>ms. (ms, g)) (traceroute_Export mid r p)"
| "Exporter_Export e (ntpExporter mid) g r p = map_option (\<lambda>ms. (ms, g)) (ntp_Export mid r p)"
| "Exporter_Export e (dnsExporter mid nsid) g r p = map_option (\<lambda>ms. (ms, g)) (dns_Export mid nsid r p)"
| "Exporter_Export e (httpExporter mid) g r p = map_option (\<lambda>ms. (ms, g)) (http_Export e mid r p)"
| "Exporter_Export e (sslCertExporter mid) g r p = sslcert_Export e mid g r p"

fun Exporter_Describe :: "Exporter \<Rightarrow> Desc list" where
  "Exporter_Describe (pingExporter mid) = ping_Describe"
| "Exporter_Describe (tracerouteExporter mid) = traceroute_Describe"
| "Exporter_Describe (ntpExporter mid) = ntp_Describe"
| "Exporter_Describe (dnsExporter mid nsid) = dns_Describe"
| "Exporter_Describe (httpExporter mid) = http_Describe"
| "Exporter_Describe (sslCertExporter mid) = sslcert_Describe"

datatype Histogram = pingHistogram (Hist: rttHistogram) | tracerouteHistogram (Hist: rttHistogram)
  | dnsHistogram (Hist: rttHistogram) | httpHistogram (Hist: rttHistogram)

fun Histogram_ProcessResult :: "Result \<Rightarrow> Histogram \<Rightarrow> Histogram" where
  "Histogram_ProcessResult r (pingHistogram h) = pingHistogram (ping_ProcessResult r h)"
| "Histogram_ProcessResult r (tracerouteHistogram h) = tracerouteHistogram (traceroute_ProcessResult r h)"
| "Histogram_ProcessResult r (dnsHistogram h) = dnsHistogram (dns_ProcessResult r h)"
| "Histogram_ProcessResult r (httpHistogram h) = httpHistogram (http_ProcessResult r h)"

datatype ResultValidator = DefaultResultValidator | TracerouteResultValidator

text \<open>\<open>None\<close> is the nil dereference when there is no probe.\<close>

definition DefaultResultValidator_IsValid :: "Result \<Rightarrow> Probe option \<Rightarrow> bool option" where
  "DefaultResultValidator_IsValid res probe = map_option (\<lambda>pr. ASNForIPVersion pr (Af res) > 0) probe"

fun IsValid :: "ResultValidator \<Rightarrow> Result \<Rightarrow> Probe option \<Rightarrow> bool option" where
  "IsValid DefaultResultValidator r p = DefaultResultValidator_IsValid r p"
| "IsValid TracerouteResultValidator r p = tracerouteResultValidator_IsValid r p"

section \<open>Measurements\<close>

record Measurement =
  latest :: "(int, Result) gomap"
  probes :: "(int, Probe option) gomap"
  histograms :: "Histogram list"
  exporter :: Exporter
  validator :: "ResultValidator option"
  maxResultAge :: duration

type_synonym MeasurementOpt = "Measurement \<Rightarrow> Measurement"

definition WithHistograms :: "Histogram list \<Rightarrow> MeasurementOpt" where
  "WithHistograms h r = r\<lparr>histograms := histograms r @ h\<rparr>"

definition WithValidator :: "ResultValidator \<Rightarrow> MeasurementOpt" where
  "WithValidator v r = r\<lparr>validator := Some v\<rparr>"

definition WithMaxResultAge :: "duration \<Rightarrow> MeasurementOpt" where
  "WithMaxResultAge age r = r\<lparr>maxResultAge := age\<rparr>"

definition NewMeasurement :: "Exporter \<Rightarrow> MeasurementOpt list \<Rightarrow> Measurement" where
  "NewMeasurement x mopts =
     fold (\<lambda>opt r. opt r) mopts
       \<lparr>latest = [], probes = [], histograms = [], exporter = x, validator = None, maxResultAge = 0\<rparr>"

text \<open>\<open>Add\<close>: the validator decides (and panics on a nil probe) before the lock is taken.\<close>

definition Measurement_store :: "Result \<Rightarrow> Probe option \<Rightarrow> Measurement \<Rightarrow> Measurement" where
  "Measurement_store m probe r =
     r\<lparr>latest := AList.update (PrbId m) m (latest r),
       probes := AList.update (PrbId m) probe (probes r),
       histograms := map (Histogram_ProcessResult m) (histograms r)\<rparr>"

definition Measurement_Add :: "Result \<Rightarrow> Probe option \<Rightarrow> Measurement \<Rightarrow> Measurement option" where
  "Measurement_Add m probe r =
     (case validator r of
        Some v \<Rightarrow> (case IsValid v m probe of
            None \<Rightarrow> None
          | Some valid \<Rightarrow> if \<not> valid then Some r else Some (Measurement_store m probe r))
      | None \<Rightarrow> Some (Measurement_store m probe r))"

definition Measurement_Describe :: "Measurement \<Rightarrow> DescItem list" where
  "Measurement_Describe r =
     map ConstDesc (Exporter_Describe (exporter r)) @ map (\<lambda>h. HistDesc (opts (Hist h))) (histograms r)"

text \<open>
  \<open>Collect\<close>: \<open>order\<close> is the order in which the range statement visits the keys of \<open>latest\<close>, \<open>clock\<close>
  the reading of \<open>time.Now\<close> when the result of a probe is checked. A missing entry of a map of
  pointers reads as nil.
\<close>

definition lookup_ptr :: "('k, 'v option) gomap \<Rightarrow> 'k \<Rightarrow> 'v option" where
  "lookup_ptr m k = (case map_of m k of Some p \<Rightarrow> p | None \<Rightarrow> None)"

definition stale :: "time \<Rightarrow> duration \<Rightarrow> Result \<Rightarrow> bool" where
  "stale now age v \<longleftrightarrow> age > 0 \<and> Timestamp v < Time_Unix now - int64_of_rat (Duration_Seconds age)"

definition fresh_results :: "int list \<Rightarrow> (int \<Rightarrow> time) \<Rightarrow> Measurement \<Rightarrow> Result list" where
  "fresh_results order clock r =
     (let results = List.map_filter (map_of (latest r)) order
      in filter (\<lambda>v. \<not> stale (clock (PrbId v)) (maxResultAge r) v) results)"

definition Measurement_Collect ::
    "ext \<Rightarrow> int list \<Rightarrow> (int \<Rightarrow> time) \<Rightarrow> pkg_vars \<Rightarrow> Measurement \<Rightarrow> (Metric list \<times> pkg_vars) option" where
  "Measurement_Collect e order clock g r = do {
     (ms, g') \<leftarrow> export_all (Exporter_Export e (exporter r)) g
        (map (\<lambda>v. (v, lookup_ptr (probes r) (PrbId v))) (fresh_results order clock r));
     Some (ms @ map (\<lambda>h. HistMetric (Hist h)) (histograms r), g')
   }"

fun Measurement_add_all :: "(Result \<times> Probe option) list \<Rightarrow> Measurement \<Rightarrow> Measurement option" where
  "Measurement_add_all [] r = Some r"
| "Measurement_add_all ((m, p) # ms) r = do { r' \<leftarrow> Measurement_Add m p r; Measurement_add_all ms r' }"

section \<open>Lemmas\<close>

lemmas exporters_described = ping_exp.sends_described0 traceroute_exp.sends_described0
  ntp_exp.sends_described0 dns_exp.sends_described0 http_exp.sends_described0
  sslcert_exp.sends_described

lemmas exporters_no_panic = ping_exp.no_panic0 traceroute_exp.no_panic0 ntp_exp.no_panic0
  dns_exp.no_panic0 http_exp.no_panic0 sslcert_exp.no_panic

interpretation exporter_impl: exporter_contract "Exporter_Export e x" "Exporter_Describe x" for e x
proof unfold_locales
  fix g r p ms g' assume "Exporter_Export e x g r p = Some (ms, g')"
  then show "list_all (described (Exporter_Describe x)) ms"
    by (cases x) (auto dest: exporters_described)
next
  fix g r p assume "printable_probe p"
  then show "Exporter_Export e x g r p \<noteq> None"
    by (cases x) (simp_all add: exporters_no_panic del: not_None_eq)
qed

lemma opts_ProcessResult [simp]: "opts (Hist (Histogram_ProcessResult r h)) = opts (Hist h)"
  by (cases h) (auto simp: go_simps traceroute_ProcessResult_def dns_ProcessResult_def split: prod.splits option.splits)

lemma Measurement_store_sel [simp]:
  "exporter (Measurement_store m p r) = exporter r" "validator (Measurement_store m p r) = validator r"
  "maxResultAge (Measurement_store m p r) = maxResultAge r"
  "histograms (Measurement_store m p r) = map (Histogram_ProcessResult m) (histograms r)"
  by (simp_all add: Measurement_store_def)

text \<open>Whether a result is taken in: the validator says yes, or there is none.\<close>

definition accepted :: "ResultValidator option \<Rightarrow> Result \<Rightarrow> Probe option \<Rightarrow> bool" where
  "accepted v m p = (case v of None \<Rightarrow> True | Some w \<Rightarrow> IsValid w m p = Some True)"

lemma IsValid_None_iff [simp]: "IsValid v m p = None \<longleftrightarrow> p = None"
  by (cases v) (simp_all add: DefaultResultValidator_IsValid_def tracerouteResultValidator_IsValid_def)

lemma IsValid_nil [simp]: "IsValid v m None = None"
  by simp

lemma Measurement_Add_eq:
  "Measurement_Add m p r =
     (if validator r \<noteq> None \<and> p = None then None
      else if accepted (validator r) m p then Some (Measurement_store m p r) else Some r)"
  by (auto simp: Measurement_Add_def accepted_def split: option.splits)

text \<open>
  The invariant: both maps have distinct keys and the same keys, every result is stored under the
  probe that sent it, and with a validator every stored pair has passed it.
\<close>

definition Measurement_wf :: "Measurement \<Rightarrow> bool" where
  "Measurement_wf r \<longleftrightarrow> gomap_wf (latest r) \<and> gomap_wf (probes r) \<and>
     fst ` set (latest r) = fst ` set (probes r) \<and>
     (\<forall>k m. map_of (latest r) k = Some m \<longrightarrow>
        PrbId m = k \<and> accepted (validator r) m (lookup_ptr (probes r) k))"

lemma Measurement_wf_empty:
  "latest r = [] \<Longrightarrow> probes r = [] \<Longrightarrow> Measurement_wf r"
  by (simp add: Measurement_wf_def)

lemma Measurement_wf_store:
  "Measurement_wf r \<Longrightarrow> accepted (validator r) m p \<Longrightarrow> Measurement_wf (Measurement_store m p r)"
  by (auto simp: Measurement_wf_def Measurement_store_def lookup_ptr_def gomap_simps split: if_splits)

lemma Measurement_wf_Add:
  "Measurement_wf r \<Longrightarrow> Measurement_Add m p r = Some r' \<Longrightarrow> Measurement_wf r'"
  by (auto simp: Measurement_Add_eq Measurement_wf_store split: if_splits)

lemma Measurement_Add_sel:
  "Measurement_Add m p r = Some r' \<Longrightarrow> exporter r' = exporter r \<and> validator r' = validator r \<and>
     maxResultAge r' = maxResultAge r"
  by (auto simp: Measurement_Add_eq split: if_splits)

subsection \<open>Histories\<close>

text \<open>Specification: the last pair of a history that was accepted for a probe.\<close>

fun last_accepted ::
    "ResultValidator option \<Rightarrow> (Result \<times> Probe option) list \<Rightarrow> int \<Rightarrow> (Result \<times> Probe option) option" where
  "last_accepted v [] k = None"
| "last_accepted v ((m, p) # ms) k =
     (case last_accepted v ms k of Some x \<Rightarrow> Some x
      | None \<Rightarrow> if PrbId m = k \<and> accepted v m p then Some (m, p) else None)"

abbreviation accepted_results :: "ResultValidator option \<Rightarrow> (Result \<times> Probe option) list \<Rightarrow> Result list" where
  "accepted_results v ms \<equiv> map fst (filter (\<lambda>(m, p). accepted v m p) ms)"

lemma add_all_None_iff:
  "Measurement_add_all ms r = None \<longleftrightarrow> validator r \<noteq> None \<and> None \<in> snd ` set ms"
proof (induction ms r rule: Measurement_add_all.induct)
  case (2 m p ms r)
  show ?case
  proof (cases "Measurement_Add m p r")
    case None
    then show ?thesis by (auto simp: Measurement_Add_eq split: if_splits)
  next
    case (Some r')
    with 2 show ?thesis
      by (auto simp: Measurement_Add_eq split: if_splits)
  qed
qed simp

lemma map_of_store [simp]:
  "map_of (latest (Measurement_store m p r)) k = (if k = PrbId m then Some m else map_of (latest r) k)"
  "map_of (probes (Measurement_store m p r)) k = (if k = PrbId m then Some p else map_of (probes r) k)"
  by (simp_all add: Measurement_store_def gomap_simps)

lemma add_all_history:
  assumes "Measurement_add_all ms r = Some r'"
  shows "map_of (latest r') k =
      (case last_accepted (validator r) ms k of Some (m, p) \<Rightarrow> Some m | None \<Rightarrow> map_of (latest r) k) \<and>
    map_of (probes r') k =
      (case last_accepted (validator r) ms k of Some (m, p) \<Rightarrow> Some p | None \<Rightarrow> map_of (probes r) k) \<and>
    histograms r' = map (fold Histogram_ProcessResult (accepted_results (validator r) ms)) (histograms r) \<and>
    exporter r' = exporter r \<and> validator r' = validator r \<and> maxResultAge r' = maxResultAge r \<and>
    (Measurement_wf r \<longrightarrow> Measurement_wf r')"
  using assms
proof (induction ms r rule: Measurement_add_all.induct)
  case (2 m p ms r)
  then obtain r1 where add: "Measurement_Add m p r = Some r1"
    and rest: "Measurement_add_all ms r1 = Some r'" by (auto split: Option.bind_splits)
  note IH = "2.IH" [OF add rest]
  show ?case
  proof (cases "accepted (validator r) m p")
    case True
    with add have "r1 = Measurement_store m p r" by (simp add: Measurement_Add_eq split: if_splits)
    with IH True show ?thesis
      by (auto simp: Measurement_wf_store comp_def split: option.splits)
  next
    case False
    with add have "r1 = r" by (simp add: Measurement_Add_eq split: if_splits)
    with IH False show ?thesis by (auto split: option.splits)
  qed
qed simp

text \<open>The values a result contributes to a histogram of each kind.\<close>

fun samples :: "Histogram \<Rightarrow> Result \<Rightarrow> float64 list" where
  "samples (pingHistogram h) r = filter gt0 (PingResults r)"
| "samples (tracerouteHistogram h) r =
     (case processLastHop r of (success, rtt) \<Rightarrow> if success = Fin 1 \<and> gt0 rtt then [rtt] else [])"
| "samples (dnsHistogram h) r =
     (case DnsResult r of None \<Rightarrow> [] | Some d \<Rightarrow> if gt0 (D_Rt d) then [D_Rt d] else [])"
| "samples (httpHistogram h) r = filter gt0 (map H_Rt (HttpResults r))"

lemma observed_ProcessResult:
  "observed (Hist (Histogram_ProcessResult r h)) = observed (Hist h) @ samples h r"
  "samples (Histogram_ProcessResult r h) = samples h"
  by (cases h; auto simp: go_simps traceroute_ProcessResult_def dns_ProcessResult_def fun_eq_iff
      split: prod.splits option.splits)+

lemma observed_fold_ProcessResult:
  "observed (Hist (fold Histogram_ProcessResult rs h)) = observed (Hist h) @ concat (map (samples h) rs)"
  by (induction rs arbitrary: h) (simp_all add: observed_ProcessResult)

lemma mem_fresh_results:
  assumes "Measurement_wf r" and "set order = fst ` set (latest r)"
  shows "v \<in> set (fresh_results order clock r) \<longleftrightarrow>
    map_of (latest r) (PrbId v) = Some v \<and> \<not> stale (clock (PrbId v)) (maxResultAge r) v"
proof -
  have "v \<in> set (List.map_filter (map_of (latest r)) order) \<longleftrightarrow> (\<exists>k. map_of (latest r) k = Some v)"
    unfolding set_map_filter_Some assms(2) by (blast dest: map_of_Some_key)
  also have "\<dots> \<longleftrightarrow> map_of (latest r) (PrbId v) = Some v"
    using assms(1) by (auto simp: Measurement_wf_def)
  finally show ?thesis by (simp add: fresh_results_def Let_def)
qed

lemma stored_probe_not_nil:
  assumes "Measurement_wf r" and "validator r \<noteq> None" and "map_of (latest r) k = Some m"
  shows "lookup_ptr (probes r) k \<noteq> None"
proof
  assume nil: "lookup_ptr (probes r) k = None"
  from assms(1,3) have "accepted (validator r) m (lookup_ptr (probes r) k)"
    by (simp add: Measurement_wf_def del: map_of_eq_Some_iff)
  with assms(2) nil show False by (auto simp: accepted_def)
qed

lemma Collect_described:
  assumes "Measurement_Collect e order clock g r = Some (ms, g')"
  shows "\<forall>m \<in> set ms. case m of
      ConstMetric d v ls \<Rightarrow> ConstDesc d \<in> set (Measurement_Describe r) \<and> length ls = length (d_labels d)
    | HistMetric h \<Rightarrow> HistDesc (opts h) \<in> set (Measurement_Describe r)"
proof -
  from assms obtain cs where
    "export_all (Exporter_Export e (exporter r)) g
      (map (\<lambda>v. (v, lookup_ptr (probes r) (PrbId v))) (fresh_results order clock r)) = Some (cs, g')"
    and ms: "ms = cs @ map (\<lambda>h. HistMetric (Hist h)) (histograms r)"
    by (auto simp: Measurement_Collect_def split: Option.bind_splits)
  then have "list_all (described (Exporter_Describe (exporter r))) cs"
    by (blast intro: exporter_impl.export_all_described)
  then show ?thesis
    by (auto simp: ms Measurement_Describe_def list_all_iff described_def split: Metric.splits)
qed

lemma Collect_total:
  assumes "Measurement_wf r" and "validator r \<noteq> None" and "set order = fst ` set (latest r)"
    and "\<forall>k pr. map_of (probes r) k = Some (Some pr) \<longrightarrow> length (Coordinates pr) \<noteq> 1"
  shows "Measurement_Collect e order clock g r \<noteq> None"
proof -
  have "printable_probe (lookup_ptr (probes r) (PrbId v))"
    if "v \<in> set (fresh_results order clock r)" for v
  proof -
    from that have "map_of (latest r) (PrbId v) = Some v"
      using mem_fresh_results [OF assms(1,3)] by blast
    from stored_probe_not_nil [OF assms(1,2) this] assms(4) show ?thesis
      by (auto simp: printable_probe_def lookup_ptr_def split: option.splits)
  qed
  then have "export_all (Exporter_Export e (exporter r)) g
      (map (\<lambda>v. (v, lookup_ptr (probes r) (PrbId v))) (fresh_results order clock r)) \<noteq> None"
    by (intro exporter_impl.export_all_no_panic) (auto simp: list_all_iff)
  then show ?thesis by (auto simp: Measurement_Collect_def)
qed

section \<open>Properties\<close>

text \<open>C5: what a measurement holds after any history of results: for every probe the last result
  the validator accepted together with the probe it came with, nothing for a probe without an accepted
  result; the invariant holds, and each histogram has seen exactly the positive round trip times of
  the accepted results, in order and once each.\<close>

theorem measurement_history:
  assumes "latest r = []" and "probes r = []" and "Measurement_add_all ms r = Some r'"
  shows "(\<forall>k. map_of (latest r') k = map_option fst (last_accepted (validator r) ms k) \<and>
              map_of (probes r') k = map_option snd (last_accepted (validator r) ms k)) \<and>
    map (\<lambda>h. observed (Hist h)) (histograms r') =
      map (\<lambda>h. observed (Hist h) @ concat (map (samples h) (accepted_results (validator r) ms))) (histograms r) \<and>
    Measurement_wf r'"
  using add_all_history [OF assms(3)] assms(1,2)
  by (auto simp: Measurement_wf_empty observed_fold_ProcessResult split: option.splits)

definition sample_measurement :: Measurement where
  "sample_measurement = NewMeasurement (pingExporter ''1001'')
     [WithHistograms [pingHistogram \<lparr>opts = \<lparr>Namespace = ''atlas'', Subsystem = ''ping'', Name = ''rtt_hist'',
         Buckets = [Fin 10], Help = [], ConstLabels = []\<rparr>, observed = []\<rparr>],
      WithValidator DefaultResultValidator]"

definition sample_result :: Result where
  "sample_result = zero_Result\<lparr>MsmId := 1001, PrbId := 6031, Af := 4, Type_of := ''ping'', Timestamp := 100,
     PingResults := [Fin 3, Fin 0]\<rparr>"

lemmas sample_defs = sample_measurement_def sample_result_def zero_Result_def sample_probe_def
  NewMeasurement_def WithHistograms_def WithValidator_def WithMaxResultAge_def

theorem measurement_history_witness:
  "\<exists>r'. Measurement_add_all [(sample_result, Some sample_probe)] sample_measurement = Some r' \<and>
     map_of (latest r') 6031 = Some sample_result \<and> Measurement_wf r'"
proof -
  have e: "latest sample_measurement = []" "probes sample_measurement = []"
    by (simp_all add: sample_defs)
  have acc: "accepted (validator sample_measurement) sample_result (Some sample_probe)" and "PrbId sample_result = 6031"
    by (simp_all add: sample_defs accepted_def DefaultResultValidator_IsValid_def ASNForIPVersion_def ipv6_def)
  obtain r' where r': "Measurement_add_all [(sample_result, Some sample_probe)] sample_measurement = Some r'"
    using add_all_None_iff [of "[(sample_result, Some sample_probe)]" sample_measurement] by auto
  with measurement_history [OF e r'] acc \<open>PrbId sample_result = 6031\<close> show ?thesis by simp
qed

text \<open>C13: everything \<open>Collect\<close> sends was announced by \<open>Describe\<close>, as Prometheus requires of a
  collector, and carries as many label values as its description has labels, so that building a
  metric cannot panic.\<close>

theorem collect_described:
  assumes "Measurement_Collect e order clock g r = Some (ms, g')"
  shows "\<forall>m \<in> set ms. case m of
      ConstMetric d v ls \<Rightarrow> ConstDesc d \<in> set (Measurement_Describe r) \<and> length ls = length (d_labels d)
    | HistMetric h \<Rightarrow> HistDesc (opts h) \<in> set (Measurement_Describe r)"
  by (rule Collect_described [OF assms])

text \<open>C12: with a validator, \<open>Collect\<close> does not panic in any state reached by additions, provided no
  stored probe has exactly one coordinate: in particular the probe of a stored result is never nil.\<close>

theorem collect_no_panic:
  assumes "Measurement_wf r" and "validator r \<noteq> None" and "set order = fst ` set (latest r)"
    and "\<forall>k pr. map_of (probes r) k = Some (Some pr) \<longrightarrow> length (Coordinates pr) \<noteq> 1"
  shows "Measurement_Collect e order clock g r \<noteq> None"
  by (rule Collect_total [OF assms])

text \<open>C14: a result is exported exactly when it is the stored one of its probe and not older than
  the configured age, counted in whole seconds; without an age every stored result is.\<close>

theorem collect_fresh:
  assumes "Measurement_wf r" and "set order = fst ` set (latest r)" and "maxResultAge r < 2 ^ 23 * Second"
  shows "v \<in> set (fresh_results order clock r) \<longleftrightarrow>
    map_of (latest r) (PrbId v) = Some v \<and>
    (maxResultAge r > 0 \<longrightarrow> Time_Unix (clock (PrbId v)) - maxResultAge r div Second \<le> Timestamp v)"
  unfolding mem_fresh_results [OF assms(1,2)] stale_def
  using assms(3) by (cases "maxResultAge r > 0") (auto simp: go_simps)

theorem collect_fresh_witness:
  "sample_result \<notin> set (fresh_results [6031] (\<lambda>_. 200 * Second)
     (Measurement_store sample_result (Some sample_probe) (sample_measurement\<lparr>maxResultAge := 60 * Second\<rparr>)))"
proof -
  let ?r = "Measurement_store sample_result (Some sample_probe) (sample_measurement\<lparr>maxResultAge := 60 * Second\<rparr>)"
  have wf: "Measurement_wf ?r"
    by (intro Measurement_wf_store Measurement_wf_empty)
      (simp_all add: sample_defs accepted_def DefaultResultValidator_IsValid_def ASNForIPVersion_def ipv6_def)
  have o': "set [6031] = fst ` set (latest ?r)"
    by (simp add: Measurement_store_def sample_defs)
  have age: "maxResultAge ?r < 2 ^ 23 * Second" by simp
  show ?thesis unfolding collect_fresh [OF wf o' age]
    by (simp add: Time_Unix_def sample_result_def)
qed

theorem collect_described_witness:
  "\<exists>ms g'. Measurement_Collect sample_ext [] (\<lambda>_. 0) \<lparr>certFingerprint = []\<rparr> sample_measurement = Some (ms, g') \<and>
     ms \<noteq> [] \<and> (\<forall>m \<in> set ms. case m of
      ConstMetric d v ls \<Rightarrow> ConstDesc d \<in> set (Measurement_Describe sample_measurement) \<and> length ls = length (d_labels d)
    | HistMetric h \<Rightarrow> HistDesc (opts h) \<in> set (Measurement_Describe sample_measurement))"
proof -
  obtain ms g' where c: "Measurement_Collect sample_ext [] (\<lambda>_. 0) \<lparr>certFingerprint = []\<rparr> sample_measurement = Some (ms, g')"
    and "ms \<noteq> []"
    by (simp add: Measurement_Collect_def fresh_results_def List.map_filter_def sample_defs)
  with collect_described [OF c] show ?thesis by blast
qed

theorem collect_no_panic_witness:
  "Measurement_Collect sample_ext [6031] (\<lambda>_. 0) \<lparr>certFingerprint = []\<rparr>
     (Measurement_store sample_result (Some sample_probe) sample_measurement) \<noteq> None"
proof (rule collect_no_panic)
  show "Measurement_wf (Measurement_store sample_result (Some sample_probe) sample_measurement)"
    by (intro Measurement_wf_store Measurement_wf_empty)
      (simp_all add: sample_defs accepted_def DefaultResultValidator_IsValid_def ASNForIPVersion_def ipv6_def)
qed (auto simp: sample_defs Measurement_store_def)

end
