(* ===== verification/Config.thy ===== *)
theory Config
  imports Go_Strings "HOL-Library.Monad_Syntax"
begin

text \<open>
  Package \<open>config\<close>: the configuration (\<open>types.go\<close>), the defaults (\<open>defaults.go\<close>), and the loader
  (\<open>loader.go\<close>) with its environment mapping, the conversion of indexed maps to arrays and the
  validation. The nested anonymous structs of \<open>Config\<close> are flattened to paths. The libraries
  koanf and mapstructure, the environment and the flag set are parameters of \<open>Load\<close>.
\<close>

section \<open>Types\<close>

record cfg_Measurement =
  M_ID :: string

text \<open>A bucket list is \<open>None\<close> when the configuration does not set it (the nil slice).\<close>

record HistogramBuckets =
  DNS_Rtt :: "float64 list option"
  HTTP_Rtt :: "float64 list option"
  Ping_Rtt :: "float64 list option"
  Traceroute_Rtt :: "float64 list option"

record Config =
  Web_ListenAddress :: string
  Web_TelemetryPath :: string
  Cache_TTL :: duration
  Cache_Cleanup :: duration
  Timeout :: duration
  Worker_Count :: "64 word"
  Streaming_Enabled :: bool
  Streaming_BufferSize :: "64 word"
  Profiling_Enabled :: bool
  Metrics_GoEnabled :: bool
  Metrics_ProcessEnabled :: bool
  Log_Level :: string
  TLS_Enabled :: bool
  TLS_CertFile :: string
  TLS_KeyFile :: string
  DNS_NSIDEnabled :: bool
  Health_MaxDataAge :: duration
  HistogramBuckets_of :: HistogramBuckets
  Measurements :: "cfg_Measurement list"
  FilterInvalidResults :: bool
  MaxResultAge :: duration

definition MeasurementIDs :: "Config \<Rightarrow> string list" where
  "MeasurementIDs c = map M_ID (Measurements c)"

section \<open>Defaults and flags\<close>

text \<open>Go's \<open>any\<close>, as far as configuration values go.\<close>

datatype any = VNil | VString string | VInt int | VUint int | VBool bool
  | VList "any list" | VMap "(string \<times> any) list"

definition Defaults :: "(string, any) gomap" where
  "Defaults = [
     (''web.listen_address'', VString '':9400''),
     (''web.telemetry_path'', VString ''/metrics''),
     (''cache.ttl'', VString ''3600s''),
     (''cache.cleanup'', VString ''300s''),
     (''timeout'', VString ''60s''),
     (''worker.count'', VInt 8),
     (''streaming.enabled'', VBool True),
     (''streaming.buffer_size'', VInt 100),
     (''profiling.enabled'', VBool False),
     (''metrics.go_enabled'', VBool True),
     (''metrics.process_enabled'', VBool True),
     (''log.level'', VString ''info''),
     (''tls.enabled'', VBool False),
     (''tls.cert_file'', VString []),
     (''tls.key_file'', VString []),
     (''health.max_data_age'', VString ''0s''),
     (''filter_invalid_results'', VBool True),
     (''max_result_age'', VString ''0s''),
     (''dns.nsid_enabled'', VBool True)]"

text \<open>
  Registering a flag asserts the type of its default: \<open>None\<close> is the panic of a failed assertion.
  A flag is its name and its default.
\<close>

fun assert_String :: "any option \<Rightarrow> any option" where
  "assert_String (Some (VString s)) = Some (VString s)"
| "assert_String _ = None"

fun assert_Uint :: "any option \<Rightarrow> any option" where
  "assert_Uint (Some (VInt i)) = Some (VUint (i mod 2 ^ 64))"
| "assert_Uint _ = None"

fun assert_Bool :: "any option \<Rightarrow> any option" where
  "assert_Bool (Some (VBool b)) = Some (VBool b)"
| "assert_Bool _ = None"

definition flag_defs :: "(string \<times> (any option \<Rightarrow> any option)) list" where
  "flag_defs = [
     (''web.listen_address'', assert_String),
     (''web.telemetry_path'', assert_String),
     (''cache.ttl'', assert_String),
     (''cache.cleanup'', assert_String),
     (''timeout'', assert_String),
     (''worker.count'', assert_Uint),
     (''streaming.enabled'', assert_Bool),
     (''streaming.buffer_size'', assert_Uint),
     (''profiling.enabled'', assert_Bool),
     (''metrics.go_enabled'', assert_Bool),
     (''metrics.process_enabled'', assert_Bool),
     (''log.level'', assert_String),
     (''tls.enabled'', assert_Bool),
     (''tls.cert_file'', assert_String),
     (''tls.key_file'', assert_String),
     (''health.max_data_age'', assert_String),
     (''filter_invalid_results'', assert_Bool),
     (''max_result_age'', assert_String),
     (''dns.nsid_enabled'', assert_Bool)]"

fun register_all :: "(string, any) gomap \<Rightarrow> (string \<times> (any option \<Rightarrow> any option)) list \<Rightarrow>
    (string \<times> any) list option" where
  "register_all d [] = Some []"
| "register_all d ((k, assert) # fs) = do {
     v \<leftarrow> assert (map_of d k);
     rest \<leftarrow> register_all d fs;
     Some ((k, v) # rest)
   }"

definition RegisterFlags :: "(string \<times> any) list option" where
  "RegisterFlags = do {
     fs \<leftarrow> register_all Defaults flag_defs;
     Some (fs @ [(''config.file'', VString [])])
   }"

section \<open>Environment mapping\<close>

definition envPrefix :: string where
  "envPrefix = ''ATLAS_''"

text \<open>The names of the variables are ASCII, as every key of the configuration is: \<open>ToUpper\<close> and \<open>ToLower\<close> map letters of ASCII only.\<close>

definition envTransform :: "string \<Rightarrow> string \<Rightarrow> string \<times> any" where
  "envTransform k v =
     (let k1 = TrimPrefix (ToUpper k) envPrefix;
          k2 = ToLower k1;
          segs = Split2 CHR ''_'' CHR ''_'' k2
      in (Join segs ''.'', VString v))"

section \<open>Arrays from indexed maps\<close>

definition index_of :: "string \<Rightarrow> int" where
  "index_of ks = (case Atoi ks of Some i \<Rightarrow> i | None \<Rightarrow> -1)"

text \<open>
  The new value of \<open>measurements\<close>: \<open>Some None\<close> leaves it alone, \<open>None\<close> is the panic of \<open>make\<close> when
  the length wraps around to a negative number or is above what the run time allows (\<open>slice_max\<close>). The map is given in its iteration order; ties of
  the (unstable) sort keep that order.
\<close>

definition fill_slots :: "(int \<times> any) list \<Rightarrow> any list \<Rightarrow> any list" where
  "fill_slots arr out = fold (\<lambda>(idx, val) out.
     if idx \<ge> 0 \<and> idx < int (length out) then out[nat idx := val] else out) arr out"

definition indexed_entries :: "(string \<times> any) list \<Rightarrow> (int \<times> any) list" where
  "indexed_entries m = filter (\<lambda>(idx, val). idx \<ge> 0) (map (\<lambda>(ks, vv). (index_of ks, vv)) m)"

definition normalize_map :: "int \<Rightarrow> (string \<times> any) list \<Rightarrow> any option option" where
  "normalize_map slice_max m =
     (let arr = indexed_entries m in
      if length arr > 0
      then (let arr = sort_key fst arr; n = fst (last arr) + 1 in
            if n > maxInt64 \<or> n > slice_max then None
            else Some (Some (VList (fill_slots arr (replicate (nat n) VNil)))))
      else Some None)"

definition normalizeArrays ::
    "int \<Rightarrow> (string \<Rightarrow> 'k \<Rightarrow> any option) \<Rightarrow> (string \<Rightarrow> any \<Rightarrow> 'k \<Rightarrow> 'k) \<Rightarrow> 'k \<Rightarrow> 'k option" where
  "normalizeArrays slice_max getv setv k =
     (case getv ''measurements'' k of
        Some (VMap m) \<Rightarrow> (case normalize_map slice_max m of
            None \<Rightarrow> None
          | Some None \<Rightarrow> Some k
          | Some (Some out) \<Rightarrow> Some (setv ''measurements'' out k))
      | _ \<Rightarrow> Some k)"

section \<open>Validation\<close>

fun nd_loop :: "nat \<Rightarrow> float64 \<Rightarrow> float64 list \<Rightarrow> bool" where
  "nd_loop i prev [] = True"
| "nd_loop i prev (v # vs) =
     (if fless v (Fin 0) then False
      else if i > 0 \<and> fless v prev then False
      else nd_loop (Suc i) v vs)"

definition isNonDecreasingNonNegative :: "float64 list \<Rightarrow> bool" where
  "isNonDecreasingNonNegative vals = nd_loop 0 (Fin (- 1)) vals"

definition slice_of :: "'a list option \<Rightarrow> 'a list" where
  "slice_of s = (case s of None \<Rightarrow> [] | Some xs \<Rightarrow> xs)"

definition bucket_map :: "Config \<Rightarrow> (string \<times> float64 list) list" where
  "bucket_map c = (let hb = HistogramBuckets_of c in
     [(''dns.rtt'', slice_of (DNS_Rtt hb)),
      (''http.rtt'', slice_of (HTTP_Rtt hb)),
      (''ping.rtt'', slice_of (Ping_Rtt hb)),
      (''traceroute.rtt'', slice_of (Traceroute_Rtt hb))])"

fun bucket_loop :: "(string \<times> float64 list) list \<Rightarrow> error option" where
  "bucket_loop [] = None"
| "bucket_loop ((name, b) # rest) =
     (if \<not> isNonDecreasingNonNegative b
      then Some (''histogram_buckets.'' @ name @ '' must be non-negative and non-decreasing'')
      else bucket_loop rest)"

text \<open>
  \<open>Validate\<close> returns the error, \<open>None\<close> if there is none. The buckets are visited in the order of a
  map iteration, which is the argument \<open>order\<close> (a permutation of the map).
\<close>

definition Validate :: "((string \<times> float64 list) list \<Rightarrow> (string \<times> float64 list) list) \<Rightarrow> Config \<Rightarrow> error option" where
  "Validate order c =
     (if Web_TelemetryPath c = [] \<or> \<not> HasPrefix (Web_TelemetryPath c) ''/''
      then Some (''web.telemetry_path must start with '' @ [CHR 0x27, CHR ''/'', CHR 0x27])
      else if TLS_Enabled c \<and> (TLS_CertFile c = [] \<or> TLS_KeyFile c = [])
      then Some ''tls enabled but cert_file or key_file missing''
      else case bucket_loop (order (bucket_map c)) of
        Some err \<Rightarrow> Some err
      | None \<Rightarrow>
        if Cache_TTL c < 0 \<or> Cache_Cleanup c < 0 \<or> Timeout c < 0 \<or> MaxResultAge c < 0 \<or> Health_MaxDataAge c < 0
        then Some ''duration values must be >= 0''
        else None)"

section \<open>Load\<close>

text \<open>
  What \<open>Load\<close> uses of koanf (its state is \<open>'k\<close>), of the flag set, of the operating system and of the run time (the
  longest slice of interfaces \<open>make\<close> makes). \<open>Load\<close>
  fails with an error of one of its sources or of the validation; \<open>None\<close> is the panic of
  \<open>normalizeArrays\<close>.
\<close>

record 'k sources =
  k_New :: 'k
  k_LoadMap :: "(string, any) gomap \<Rightarrow> 'k \<Rightarrow> 'k res"
  k_LoadFile :: "string \<Rightarrow> 'k \<Rightarrow> 'k res"
  k_LoadEnv :: "string \<Rightarrow> (string \<Rightarrow> string \<Rightarrow> string \<times> any) \<Rightarrow> 'k \<Rightarrow> 'k res"
  k_LoadFlags :: "'k \<Rightarrow> 'k res"
  k_Get :: "string \<Rightarrow> 'k \<Rightarrow> any option"
  k_Set :: "string \<Rightarrow> any \<Rightarrow> 'k \<Rightarrow> 'k"
  k_Unmarshal :: "'k \<Rightarrow> Config res"
  fs_Lookup :: "string \<Rightarrow> string option"
  os_Getenv :: "string \<Rightarrow> string"
  filepath_Abs :: "string \<Rightarrow> string res"
  make_max :: int

definition wrap_err :: "string \<Rightarrow> 'a res \<Rightarrow> 'a res" where
  "wrap_err msg r = (case r of Inl err \<Rightarrow> Inl (msg @ '': '' @ err) | Inr x \<Rightarrow> Inr x)"

definition config_path :: "('k, 'z) sources_scheme \<Rightarrow> string" where
  "config_path S =
     (let p = (case fs_Lookup S ''config.file'' of Some v \<Rightarrow> v | None \<Rightarrow> []);
          p = (if p = [] then os_Getenv S (envPrefix @ ''CONFIG_FILE'') else p)
      in if p \<noteq> [] then (case filepath_Abs S p of Inr a \<Rightarrow> a | Inl _ \<Rightarrow> p) else p)"

definition load_layers :: "('k, 'z) sources_scheme \<Rightarrow> 'k res" where
  "load_layers S =
     (case wrap_err ''load defaults'' (k_LoadMap S Defaults (k_New S)) of
        Inl err \<Rightarrow> Inl err
      | Inr k1 \<Rightarrow> (let path = config_path S in
         case (if path \<noteq> [] then wrap_err (''load yaml file '' @ path) (k_LoadFile S path k1) else Inr k1) of
           Inl err \<Rightarrow> Inl err
         | Inr k2 \<Rightarrow> (case wrap_err ''load env'' (k_LoadEnv S envPrefix envTransform k2) of
             Inl err \<Rightarrow> Inl err
           | Inr k3 \<Rightarrow> wrap_err ''load flags'' (k_LoadFlags S k3))))"

definition Load :: "((string \<times> float64 list) list \<Rightarrow> (string \<times> float64 list) list) \<Rightarrow>
    ('k, 'z) sources_scheme \<Rightarrow> Config res option" where
  "Load order S =
     (case load_layers S of
        Inl err \<Rightarrow> Some (Inl err)
      | Inr k \<Rightarrow> (case normalizeArrays (make_max S) (k_Get S) (k_Set S) k of
          None \<Rightarrow> None
        | Some k' \<Rightarrow> (case wrap_err ''unmarshal'' (k_Unmarshal S k') of
            Inl err \<Rightarrow> Some (Inl err)
          | Inr cfg \<Rightarrow> (case Validate order cfg of
              Some err \<Rightarrow> Some (Inl err)
            | None \<Rightarrow> Some (Inr cfg)))))"

section \<open>Lemmas\<close>

lemma nd_loop_Suc:
  "nd_loop (Suc i) prev vs \<longleftrightarrow>
     (\<forall>v \<in> set vs. \<not> fless v (Fin 0)) \<and> successively (\<lambda>x y. \<not> fless y x) (prev # vs)"
  by (induction vs arbitrary: i prev) auto

lemma isNonDecreasingNonNegative_iff:
  "isNonDecreasingNonNegative vs \<longleftrightarrow>
     (\<forall>v \<in> set vs. \<not> fless v (Fin 0)) \<and> successively (\<lambda>x y. \<not> fless y x) vs"
  by (cases vs) (auto simp: isNonDecreasingNonNegative_def nd_loop_Suc)

lemma isNonDecreasingNonNegative_Fin:
  "isNonDecreasingNonNegative (map Fin xs) \<longleftrightarrow> sorted xs \<and> (\<forall>x \<in> set xs. 0 \<le> x)"
  by (auto simp: isNonDecreasingNonNegative_iff successively_map not_less
      successively_conv_sorted_wrt transp_on_le)

lemma bucket_loop_None_iff:
  "bucket_loop bs = None \<longleftrightarrow> (\<forall>(name, b) \<in> set bs. isNonDecreasingNonNegative b)"
  by (induction bs rule: bucket_loop.induct) auto

lemma buckets_visited:
  assumes "set (order (bucket_map c)) = set (bucket_map c)"
  shows "bucket_loop (order (bucket_map c)) = None \<longleftrightarrow> (\<forall>(name, b) \<in> set (bucket_map c). isNonDecreasingNonNegative b)"
  unfolding bucket_loop_None_iff assms ..

lemma Validate_buckets:
  assumes "Validate order c = None" and "set (order (bucket_map c)) = set (bucket_map c)" and "(name, b) \<in> set (bucket_map c)"
  shows "isNonDecreasingNonNegative b"
  using assms(1,3) buckets_visited [of order c, OF assms(2)] by (auto simp: Validate_def split: if_splits option.splits)

lemma length_fill_slots [simp]: "length (fill_slots arr out) = length out"
  unfolding fill_slots_def by (induction arr arbitrary: out) auto

lemma fill_slots_Cons:
  "fill_slots ((idx, v) # arr) out =
     fill_slots arr (if idx \<ge> 0 \<and> idx < int (length out) then out[nat idx := v] else out)"
  by (simp add: fill_slots_def)

lemma nth_fill_slots:
  assumes "distinct (map fst arr)" and "i < length out"
  shows "fill_slots arr out ! i = (case map_of arr (int i) of Some v \<Rightarrow> v | None \<Rightarrow> out ! i)"
  using assms
proof (induction arr arbitrary: out)
  case (Cons e arr)
  obtain idx v where e: "e = (idx, v)" by fastforce
  from Cons.prems e have notin: "map_of arr idx = None"
    by (auto simp: map_of_eq_None_iff)
  have "fill_slots (e # arr) out ! i =
      (case map_of arr (int i) of Some v \<Rightarrow> v
       | None \<Rightarrow> (if idx \<ge> 0 \<and> idx < int (length out) then out[nat idx := v] else out) ! i)"
    using Cons.IH Cons.prems by (simp add: e fill_slots_Cons)
  also have "\<dots> = (case map_of (e # arr) (int i) of Some v \<Rightarrow> v | None \<Rightarrow> out ! i)"
    using notin Cons.prems(2) by (cases "idx = int i") (auto simp: e nth_list_update split: option.splits)
  finally show ?case .
qed (simp add: fill_slots_def)

lemma sorted_le_last: "sorted xs \<Longrightarrow> x \<in> set xs \<Longrightarrow> x \<le> last xs"
  by (induction xs) auto

lemma last_sort_key_Max:
  fixes arr :: "(int \<times> 'v) list"
  assumes "arr \<noteq> []"
  shows "fst (last (sort_key fst arr)) = Max (fst ` set arr)"
proof -
  let ?s = "sort_key fst arr"
  have ne: "?s \<noteq> []" using assms by (metis set_empty set_sort)
  have "sorted (map fst ?s)" by (rule sorted_sort_key)
  with ne have "x \<le> fst (last ?s)" if "x \<in> fst ` set ?s" for x
    using sorted_le_last [of "map fst ?s" x] that by (simp add: last_map)
  moreover have "fst (last ?s) \<in> fst ` set ?s" using last_in_set [OF ne] by (rule imageI)
  ultimately have "Max (fst ` set ?s) = fst (last ?s)" by (intro Max_eqI) auto
  then show ?thesis by simp
qed

lemma index_of_Itoa [simp]: "0 \<le> i \<Longrightarrow> i \<le> maxInt64 \<Longrightarrow> index_of (Itoa i) = i"
  by (simp add: index_of_def Atoi_Itoa)

lemma map_of_sort_key_fst:
  assumes "distinct (map fst arr)"
  shows "distinct (map fst (sort_key fst arr))" and "map_of (sort_key fst arr) k = map_of arr k"
proof -
  have "mset (map fst (sort_key fst arr)) = mset (map fst arr)" by simp
  then show d: "distinct (map fst (sort_key fst arr))"
    using assms by (rule mset_eq_imp_distinct_iff [THEN iffD2])
  show "map_of (sort_key fst arr) k = map_of arr k"
  proof (cases "map_of arr k")
    case None
    then have "k \<notin> fst ` set (sort_key fst arr)" by (simp add: map_of_eq_None_iff)
    then have "map_of (sort_key fst arr) k = None" by (simp only: map_of_eq_None_iff not_False_eq_True)
    then show ?thesis by (simp only: None)
  next
    case (Some v)
    then have "(k, v) \<in> set (sort_key fst arr)" by (auto dest: map_of_SomeD)
    then show ?thesis by (simp only: Some map_of_Some_iff_mem [OF d])
  qed
qed

lemma ToUpper_envPrefix [simp]: "ToUpper envPrefix = envPrefix"
  by (simp add: ToUpper_def envPrefix_def to_upper_def)

lemma to_upper_idem [simp]: "to_upper (to_upper c) = to_upper c"
  by (auto simp: to_upper_def)

lemma ToUpper_idem [simp]: "ToUpper (ToUpper s) = ToUpper s"
  by (simp add: ToUpper_def)

section \<open>Properties\<close>

text \<open>A segment of a configuration key: no capital letter, no \<open>__\<close>, no final \<open>_\<close>.\<close>

definition key_segment :: "string \<Rightarrow> bool" where
  "key_segment s \<longleftrightarrow> no_pair CHR ''_'' s \<and> (\<forall>c \<in> set s. \<not> (65 \<le> (of_char c :: nat) \<and> (of_char c :: nat) \<le> 90))"

definition env_name :: "string list \<Rightarrow> string" where
  "env_name segs = envPrefix @ ToUpper (Join segs ''__'')"

text \<open>C27: the documented environment mapping: the variable \<open>ATLAS_\<close> followed by the capitalised
  segments of a key, separated by two underscores, sets the key with the segments separated by dots;
  single underscores inside a segment are kept.\<close>

theorem envTransform_key:
  assumes "segs \<noteq> []" and "\<forall>s \<in> set segs. key_segment s"
  shows "envTransform (env_name segs) v = (Join segs ''.'', VString v)"
proof -
  have "\<forall>c \<in> set (Join segs ''__''). \<not> (65 \<le> (of_char c :: nat) \<and> (of_char c :: nat) \<le> 90)"
    using assms(2) by (induction segs "''__''" rule: Join.induct) (auto simp: key_segment_def)
  then have low: "ToLower (ToUpper (Join segs ''__'')) = Join segs ''__''"
    by (rule ToLower_ToUpper)
  have "Split2 CHR ''_'' CHR ''_'' (Join segs ''__'') = segs"
    using assms by (intro Split2_Join) (auto simp: key_segment_def)
  with low show ?thesis
    by (simp add: envTransform_def env_name_def ToUpper_append Let_def)
qed

theorem envTransform_key_witness:
  "envTransform ''ATLAS_WEB__LISTEN_ADDRESS'' '':80'' = (''web.listen_address'', VString '':80'')"
proof -
  have n: "env_name [''web'', ''listen_address''] = ''ATLAS_WEB__LISTEN_ADDRESS''"
    by (simp add: env_name_def envPrefix_def ToUpper_def to_upper_def char_of_def bit_0)
  have "envTransform (env_name [''web'', ''listen_address'']) '':80'' = (Join [''web'', ''listen_address''] ''.'', VString '':80'')"
    by (rule envTransform_key) (auto simp: key_segment_def)
  then show ?thesis by (simp add: n)
qed

text \<open>C28: \<open>normalizeArrays\<close> turns the map of indexed entries that the environment yields into an
  array that has every entry at its index, nil in the gaps, and ends at the largest index; entries
  whose key is no index are dropped. A largest index for which there is no slice makes it panic, whatever the other
  entries are.\<close>

theorem normalize_map_slots:
  assumes "indexed_entries m \<noteq> []" and "distinct (map fst (indexed_entries m))"
    and "mx = Max (fst ` set (indexed_entries m))"
  shows "if mx < maxInt64 \<and> mx < slice_max then
      (\<exists>out. normalize_map slice_max m = Some (Some (VList out)) \<and> length out = nat (mx + 1) \<and>
         (\<forall>i < length out. out ! i =
            (case map_of (indexed_entries m) (int i) of Some v \<Rightarrow> v | None \<Rightarrow> VNil)))
    else normalize_map slice_max m = None"
proof -
  let ?arr = "indexed_entries m"
  let ?n = "fst (last (sort_key fst ?arr)) + 1"
  let ?out = "fill_slots (sort_key fst ?arr) (replicate (nat ?n) VNil)"
  have n: "?n = mx + 1" by (simp add: last_sort_key_Max [OF assms(1)] assms(3))
  show ?thesis
  proof (cases "mx < maxInt64 \<and> mx < slice_max")
    case True
    with n have "\<not> (maxInt64 < ?n \<or> slice_max < ?n)" by linarith
    then have "normalize_map slice_max m = Some (Some (VList ?out))"
      using assms(1) by (simp add: normalize_map_def Let_def)
    moreover have "?out ! i = (case map_of ?arr (int i) of Some v \<Rightarrow> v | None \<Rightarrow> VNil)"
      if "i < length ?out" for i
      using that nth_fill_slots [of "sort_key fst ?arr" i "replicate (nat ?n) VNil"]
      by (simp add: map_of_sort_key_fst [OF assms(2)] split: option.splits)
    ultimately show ?thesis using n True by (intro if_P [THEN iffD2] exI [of _ ?out]) simp_all
  next
    case False
    with n have "maxInt64 < ?n \<or> slice_max < ?n" by linarith
    then show ?thesis using assms(1) False by (simp add: normalize_map_def Let_def)
  qed
qed

theorem normalize_map_slots_witness:
  "\<exists>out. normalize_map (2 ^ 44) [(''2'', VString ''c''), (''x'', VNil), (''0'', VString ''a'')] = Some (Some (VList out)) \<and>
     length out = 3 \<and> out ! 0 = VString ''a'' \<and> out ! 1 = VNil \<and> out ! 2 = VString ''c''"
proof -
  let ?m = "[(''2'', VString ''c''), (''x'', VNil), (''0'', VString ''a'')]"
  have e: "indexed_entries ?m = [(2, VString ''c''), (0, VString ''a'')]"
    by (simp add: indexed_entries_def index_of_def Atoi_digits_def is_digit_def digits_val_def digit_val_def Let_def)
  have "if (2::int) < maxInt64 \<and> 2 < (2 ^ 44 :: int) then
      (\<exists>out. normalize_map (2 ^ 44) ?m = Some (Some (VList out)) \<and> length out = nat (2 + 1) \<and>
        (\<forall>i < length out. out ! i =
          (case map_of (indexed_entries ?m) (int i) of Some v \<Rightarrow> v | None \<Rightarrow> VNil)))
      else normalize_map (2 ^ 44) ?m = None"
    by (rule normalize_map_slots) (simp_all add: e)
  then show ?thesis by (auto simp: e)
qed

text \<open>C21: validation accepts exactly the configurations whose telemetry path starts with a slash, whose
  TLS files are named when TLS is on, whose buckets are nowhere negative and nowhere decreasing, and
  whose durations are not negative, in whatever order the buckets are visited.\<close>

theorem Validate_iff:
  assumes "set (order (bucket_map c)) = set (bucket_map c)"
  shows "Validate order c = None \<longleftrightarrow>
    HasPrefix (Web_TelemetryPath c) ''/'' \<and>
    (TLS_Enabled c \<longrightarrow> TLS_CertFile c \<noteq> [] \<and> TLS_KeyFile c \<noteq> []) \<and>
    (\<forall>(name, b) \<in> set (bucket_map c).
       (\<forall>v \<in> set b. \<not> fless v (Fin 0)) \<and> successively (\<lambda>x y. \<not> fless y x) b) \<and>
    0 \<le> Cache_TTL c \<and> 0 \<le> Cache_Cleanup c \<and> 0 \<le> Timeout c \<and> 0 \<le> MaxResultAge c \<and> 0 \<le> Health_MaxDataAge c"
proof -
  from buckets_visited [of order c, OF assms] show ?thesis
    by (auto simp: Validate_def HasPrefix_def isNonDecreasingNonNegative_iff not_less
        split: option.splits if_splits)
qed

definition sample_cfg :: Config where
  "sample_cfg = \<lparr>Web_ListenAddress = '':9400'', Web_TelemetryPath = ''/metrics'',
     Cache_TTL = 3600 * Second, Cache_Cleanup = 300 * Second, Timeout = 60 * Second,
     Worker_Count = 8, Streaming_Enabled = True, Streaming_BufferSize = 100,
     Profiling_Enabled = False, Metrics_GoEnabled = True, Metrics_ProcessEnabled = True,
     Log_Level = ''info'', TLS_Enabled = False, TLS_CertFile = [], TLS_KeyFile = [],
     DNS_NSIDEnabled = True, Health_MaxDataAge = 0,
     HistogramBuckets_of = \<lparr>DNS_Rtt = None, HTTP_Rtt = None, Ping_Rtt = Some [Fin 5, Fin 5, Fin 10], Traceroute_Rtt = None\<rparr>,
     Measurements = [\<lparr>M_ID = ''1001''\<rparr>], FilterInvalidResults = True, MaxResultAge = 0\<rparr>"

theorem Validate_iff_witness: "Validate rev sample_cfg = None"
proof -
  have "set (rev (bucket_map sample_cfg)) = set (bucket_map sample_cfg)" by simp
  from Validate_iff [where order = rev, OF this] show ?thesis
    by (simp add: sample_cfg_def HasPrefix_def bucket_map_def slice_of_def)
qed

text \<open>C20: precedence of the sources: a key has the value of the flag given on the command line, else
  of the environment, else of the file, else its default. The hypotheses are koanf's documented merge:
  a loaded layer overrides the keys it has, and the flag provider lets a flag that was not given only
  fill in keys nobody set.\<close>

theorem load_precedence:
  assumes new: "k_Get S key (k_New S) = None"
    and maps: "\<And>m k k'. k_LoadMap S m k = Inr k' \<Longrightarrow>
      k_Get S key k' = (case map_of m key of Some v \<Rightarrow> Some v | None \<Rightarrow> k_Get S key k)"
    and files: "\<And>path k k'. k_LoadFile S path k = Inr k' \<Longrightarrow>
      k_Get S key k' = (case yaml path key of Some v \<Rightarrow> Some v | None \<Rightarrow> k_Get S key k)"
    and env: "\<And>pre tr k k'. k_LoadEnv S pre tr k = Inr k' \<Longrightarrow>
      k_Get S key k' = (case environ pre tr key of Some v \<Rightarrow> Some v | None \<Rightarrow> k_Get S key k)"
    and flags: "\<And>k k'. k_LoadFlags S k = Inr k' \<Longrightarrow>
      k_Get S key k' = (case given key of Some v \<Rightarrow> Some v
        | None \<Rightarrow> (case k_Get S key k of Some v \<Rightarrow> Some v | None \<Rightarrow> flag_default key))"
    and loaded: "load_layers S = Inr k"
  shows "k_Get S key k =
    (case given key of Some v \<Rightarrow> Some v
     | None \<Rightarrow> (case environ envPrefix envTransform key of Some v \<Rightarrow> Some v
       | None \<Rightarrow> (case (if config_path S \<noteq> [] then yaml (config_path S) key else None) of Some v \<Rightarrow> Some v
         | None \<Rightarrow> (case map_of Defaults key of Some v \<Rightarrow> Some v | None \<Rightarrow> flag_default key))))"
proof -
  from loaded obtain k1 k2 k3 where
      1: "k_LoadMap S Defaults (k_New S) = Inr k1"
    and 2: "(if config_path S \<noteq> [] then k_LoadFile S (config_path S) k1 else Inr k1) = Inr k2"
    and 3: "k_LoadEnv S envPrefix envTransform k2 = Inr k3"
    and 4: "k_LoadFlags S k3 = Inr k"
    by (auto simp: load_layers_def wrap_err_def Let_def split: sum.splits if_splits)
  from 2 have "k_Get S key k2 =
      (case (if config_path S \<noteq> [] then yaml (config_path S) key else None) of
         Some v \<Rightarrow> Some v | None \<Rightarrow> k_Get S key k1)"
    by (auto split: if_splits option.splits dest: files)
  with maps [OF 1] env [OF 3] flags [OF 4] new show ?thesis
    by (auto split: option.splits)
qed

text \<open>Sources for examples: layers are maps; the file and the flags set the log level, the environment
  one boolean.\<close>

definition sample_sources :: "(string \<Rightarrow> any option) sources" where
  "sample_sources = \<lparr>k_New = Map.empty, k_LoadMap = (\<lambda>m k. Inr (k ++ map_of m)),
     k_LoadFile = (\<lambda>path k. Inr (k ++ [''log.level'' \<mapsto> VString ''warn''])),
     k_LoadEnv = (\<lambda>pre tr k. Inr (k ++ map_of [tr ''ATLAS_METRICS__GO_ENABLED'' ''true''])),
     k_LoadFlags = (\<lambda>k. Inr (k ++ [''log.level'' \<mapsto> VString ''debug''])),
     k_Get = (\<lambda>key k. k key), k_Set = (\<lambda>key v k. k(key \<mapsto> v)),
     k_Unmarshal = (\<lambda>k. Inr sample_cfg), fs_Lookup = (\<lambda>_. Some ''c.yaml''),
     os_Getenv = (\<lambda>_. []), filepath_Abs = Inr, make_max = 2 ^ 44\<rparr>"

lemma sample_env: "envTransform ''ATLAS_METRICS__GO_ENABLED'' v = (''metrics.go_enabled'', VString v)"
  by (simp add: envTransform_def TrimPrefix_def HasPrefix_def envPrefix_def ToUpper_def ToLower_def
      to_upper_def to_lower_def char_of_def bit_0 Let_def)

lemma sample_layers: "\<exists>k. load_layers sample_sources = Inr k"
  by (simp add: load_layers_def wrap_err_def sample_sources_def Let_def)

theorem load_precedence_witness:
  "\<exists>k. load_layers sample_sources = Inr k \<and> k ''log.level'' = Some (VString ''debug'')"
proof -
  obtain k where k: "load_layers sample_sources = Inr k" using sample_layers by blast
  have "k_Get sample_sources ''log.level'' k =
      (case [''log.level'' \<mapsto> VString ''debug''] ''log.level'' of Some v \<Rightarrow> Some v
       | None \<Rightarrow> (case (\<lambda>pre tr. map_of [tr ''ATLAS_METRICS__GO_ENABLED'' ''true'']) envPrefix envTransform ''log.level'' of Some v \<Rightarrow> Some v
         | None \<Rightarrow> (case (if config_path sample_sources \<noteq> [] then (\<lambda>path. [''log.level'' \<mapsto> VString ''warn'']) (config_path sample_sources) ''log.level'' else None) of Some v \<Rightarrow> Some v
           | None \<Rightarrow> (case map_of Defaults ''log.level'' of Some v \<Rightarrow> Some v | None \<Rightarrow> Map.empty ''log.level''))))"
    by (rule load_precedence [OF _ _ _ _ _ k])
      (auto simp: sample_sources_def map_add_def split: option.splits)
  with k show ?thesis by (simp add: sample_sources_def)
qed

lemma sample_Load: "Load rev sample_sources = Some (Inr sample_cfg)"
proof -
  obtain k where k: "load_layers sample_sources = Inr k" using sample_layers by blast
  have v: "bucket_loop (rev (bucket_map sample_cfg)) = None"
    by (simp add: sample_cfg_def bucket_map_def slice_of_def isNonDecreasingNonNegative_def)
  have m: "map_of Defaults ''measurements'' = None" by (simp add: Defaults_def)
  have g: "k ''measurements'' = None"
    using k by (auto simp: load_layers_def wrap_err_def sample_sources_def config_path_def Let_def m
      sample_env split: sum.splits)
  show ?thesis
    using k v g by (simp add: Load_def normalizeArrays_def wrap_err_def sample_sources_def Validate_def
      sample_cfg_def HasPrefix_def)
qed

end
