(* ===== verification/Types.thy ===== *)
theory Types
  imports Measurement Config
begin

text \<open>
  The constructors of measurements: \<open>NewMeasurement\<close> of the packages \<open>ping\<close>, \<open>traceroute\<close>, \<open>ntp\<close>,
  \<open>dns\<close>, \<open>http\<close> and \<open>sslcert\<close>, and \<open>measurementForType\<close> of \<open>atlas/helper.go\<close>, which chooses among
  them. \<open>None\<close> is the panic of \<open>prometheus.NewHistogram\<close>.
\<close>

definition ping_NewMeasurement :: "ext \<Rightarrow> string \<Rightarrow> string \<Rightarrow> Config \<Rightarrow> Measurement option" where
  "ping_NewMeasurement e mid ipVersion cfg = do {
     h \<leftarrow> ping_newRttHistogram e mid ipVersion (Ping_Rtt (HistogramBuckets_of cfg));
     let mopts = [WithHistograms [pingHistogram h]];
     let mopts = (if FilterInvalidResults cfg then mopts @ [WithValidator DefaultResultValidator] else mopts);
     let mopts = (if MaxResultAge cfg > 0 then mopts @ [WithMaxResultAge (MaxResultAge cfg)] else mopts);
     Some (NewMeasurement (pingExporter mid) mopts)
   }"

definition traceroute_NewMeasurement :: "ext \<Rightarrow> string \<Rightarrow> string \<Rightarrow> Config \<Rightarrow> Measurement option" where
  "traceroute_NewMeasurement e mid ipVersion cfg = do {
     h \<leftarrow> traceroute_newRttHistogram e mid ipVersion (Traceroute_Rtt (HistogramBuckets_of cfg));
     let mopts = [WithHistograms [tracerouteHistogram h]];
     let mopts = (if FilterInvalidResults cfg then mopts @ [WithValidator TracerouteResultValidator] else mopts);
     let mopts = (if MaxResultAge cfg > 0 then mopts @ [WithMaxResultAge (MaxResultAge cfg)] else mopts);
     Some (NewMeasurement (tracerouteExporter mid) mopts)
   }"

definition ntp_NewMeasurement :: "string \<Rightarrow> Config \<Rightarrow> Measurement" where
  "ntp_NewMeasurement mid cfg =
     (let mopts = [];
          mopts = (if FilterInvalidResults cfg then mopts @ [WithValidator DefaultResultValidator] else mopts);
          mopts = (if MaxResultAge cfg > 0 then mopts @ [WithMaxResultAge (MaxResultAge cfg)] else mopts)
      in NewMeasurement (ntpExporter mid) mopts)"

definition dns_NewMeasurement :: "ext \<Rightarrow> string \<Rightarrow> string \<Rightarrow> Config \<Rightarrow> Measurement option" where
  "dns_NewMeasurement e mid ipVersion cfg = do {
     h \<leftarrow> dns_newRttHistogram e mid ipVersion (DNS_Rtt (HistogramBuckets_of cfg));
     let mopts = [WithHistograms [dnsHistogram h]];
     let mopts = (if FilterInvalidResults cfg then mopts @ [WithValidator DefaultResultValidator] else mopts);
     let mopts = (if MaxResultAge cfg > 0 then mopts @ [WithMaxResultAge (MaxResultAge cfg)] else mopts);
     Some (NewMeasurement (dnsExporter mid (DNS_NSIDEnabled cfg)) mopts)
   }"

definition http_NewMeasurement :: "ext \<Rightarrow> string \<Rightarrow> string \<Rightarrow> Config \<Rightarrow> Measurement option" where
  "http_NewMeasurement e mid ipVersion cfg = do {
     h \<leftarrow> http_newRttHistogram e mid ipVersion (HTTP_Rtt (HistogramBuckets_of cfg));
     let mopts = [WithHistograms [httpHistogram h]];
     let mopts = (if FilterInvalidResults cfg then mopts @ [WithValidator DefaultResultValidator] else mopts);
     let mopts = (if MaxResultAge cfg > 0 then mopts @ [WithMaxResultAge (MaxResultAge cfg)] else mopts);
     Some (NewMeasurement (httpExporter mid) mopts)
   }"

definition sslcert_NewMeasurement :: "string \<Rightarrow> Config \<Rightarrow> Measurement" where
  "sslcert_NewMeasurement mid cfg =
     (let mopts = [];
          mopts = (if FilterInvalidResults cfg then mopts @ [WithValidator DefaultResultValidator] else mopts);
          mopts = (if MaxResultAge cfg > 0 then mopts @ [WithMaxResultAge (MaxResultAge cfg)] else mopts)
      in NewMeasurement (sslCertExporter mid) mopts)"

definition measurementForType ::
    "ext \<Rightarrow> string \<Rightarrow> string \<Rightarrow> string \<Rightarrow> Config \<Rightarrow> Measurement res option" where
  "measurementForType e t mid ipVersion cfg =
     (if t = ''ping'' then map_option Inr (ping_NewMeasurement e mid ipVersion cfg)
      else if t = ''traceroute'' then map_option Inr (traceroute_NewMeasurement e mid ipVersion cfg)
      else if t = ''ntp'' then Some (Inr (ntp_NewMeasurement mid cfg))
      else if t = ''dns'' then map_option Inr (dns_NewMeasurement e mid ipVersion cfg)
      else if t = ''http'' then map_option Inr (http_NewMeasurement e mid ipVersion cfg)
      else if t = ''sslcert'' then Some (Inr (sslcert_NewMeasurement mid cfg))
      else Some (Inl (''type '' @ t @ '' is not supported yet'')))"

section \<open>Lemmas\<close>

lemmas NewMeasurement_defs = ping_NewMeasurement_def traceroute_NewMeasurement_def
  ntp_NewMeasurement_def dns_NewMeasurement_def http_NewMeasurement_def sslcert_NewMeasurement_def

lemmas newRttHistogram_defs = ping_newRttHistogram_def traceroute_newRttHistogram_def
  dns_newRttHistogram_def http_newRttHistogram_def NewHistogram_def

text \<open>The exporter and the validator that belong to a type.\<close>

fun exporter_for :: "string \<Rightarrow> string \<Rightarrow> Config \<Rightarrow> Exporter option" where
  "exporter_for t mid cfg = map_of
     [(''ping'', pingExporter mid), (''traceroute'', tracerouteExporter mid), (''ntp'', ntpExporter mid),
      (''dns'', dnsExporter mid (DNS_NSIDEnabled cfg)), (''http'', httpExporter mid),
      (''sslcert'', sslCertExporter mid)] t"

definition validator_for :: "string \<Rightarrow> ResultValidator" where
  "validator_for t = (if t = ''traceroute'' then TracerouteResultValidator else DefaultResultValidator)"

lemma measurementForType_cases:
  assumes "measurementForType e t mid ipVersion cfg = Some (Inr r)"
  shows "exporter_for t mid cfg = Some (exporter r) \<and> latest r = [] \<and> probes r = [] \<and>
    validator r = (if FilterInvalidResults cfg then Some (validator_for t) else None) \<and>
    maxResultAge r = max 0 (MaxResultAge cfg) \<and>
    (\<forall>h \<in> set (histograms r). observed (Hist h) = [])"
  using assms
  by (auto simp: measurementForType_def NewMeasurement_defs newRttHistogram_defs NewMeasurement_def
      WithHistograms_def WithValidator_def WithMaxResultAge_def validator_for_def Let_def
      split: if_splits Option.bind_splits)

text \<open>Bucket lists Prometheus is documented to accept; an absent list is replaced by defaults.\<close>

definition buckets_increasing :: "Config \<Rightarrow> bool" where
  "buckets_increasing cfg = (let hb = HistogramBuckets_of cfg in
     list_all (\<lambda>b. strictly_increasing (slice_of b)) [DNS_Rtt hb, HTTP_Rtt hb, Ping_Rtt hb, Traceroute_Rtt hb])"

lemma measurementForType_supported:
  assumes "\<And>o'. strictly_increasing (Buckets o') \<Longrightarrow> hist_ok e o'" and "buckets_increasing cfg"
  shows "case exporter_for t mid cfg of
      Some x \<Rightarrow> \<exists>r. measurementForType e t mid ipVersion cfg = Some (Inr r) \<and> exporter r = x \<and>
        latest r = [] \<and> probes r = [] \<and> maxResultAge r = max 0 (MaxResultAge cfg) \<and>
        validator r = (if FilterInvalidResults cfg then Some (validator_for t) else None)
    | None \<Rightarrow> measurementForType e t mid ipVersion cfg = Some (Inl (''type '' @ t @ '' is not supported yet''))"
proof (cases "exporter_for t mid cfg")
  case None
  then show ?thesis by (auto simp: measurementForType_def split: if_splits)
next
  case (Some x)
  have "\<exists>r. measurementForType e t mid ipVersion cfg = Some (Inr r)"
    using assms(2) Some
    by (auto simp: measurementForType_def NewMeasurement_defs newRttHistogram_defs buckets_increasing_def
        slice_of_def Let_def intro!: assms(1) split: if_splits option.splits)
  then obtain r where r: "measurementForType e t mid ipVersion cfg = Some (Inr r)" by blast
  from measurementForType_cases [OF r] Some r show ?thesis by (simp del: exporter_for.simps)
qed

section \<open>Properties\<close>

text \<open>C25: with strictly increasing buckets a measurement is made for each of the six supported types
  (with the exporter of the type for this id, no results, the validator the configuration asks for
  and the configured age), and any other type is refused with an error; nothing panics.\<close>

theorem measurementForType_total:
  assumes "\<And>o'. strictly_increasing (Buckets o') \<Longrightarrow> hist_ok e o'" and "buckets_increasing cfg"
  shows "case exporter_for t mid cfg of
      Some x \<Rightarrow> \<exists>r. measurementForType e t mid ipVersion cfg = Some (Inr r) \<and> exporter r = x \<and>
        latest r = [] \<and> probes r = [] \<and> maxResultAge r = max 0 (MaxResultAge cfg) \<and>
        validator r = (if FilterInvalidResults cfg then Some (validator_for t) else None)
    | None \<Rightarrow> measurementForType e t mid ipVersion cfg = Some (Inl (''type '' @ t @ '' is not supported yet''))"
  by (rule measurementForType_supported [OF assms])

definition ok_cfg :: Config where
  "ok_cfg = sample_cfg\<lparr>HistogramBuckets_of := \<lparr>DNS_Rtt = None, HTTP_Rtt = None, Ping_Rtt = Some [Fin 5], Traceroute_Rtt = None\<rparr>\<rparr>"

lemma sample_hist_ok: "strictly_increasing (Buckets o') \<Longrightarrow> hist_ok sample_ext o'"
  by (simp add: sample_ext_def)

lemma buckets_ok_cfg: "buckets_increasing ok_cfg"
  by (simp add: ok_cfg_def buckets_increasing_def slice_of_def sample_cfg_def)

theorem measurementForType_total_witness:
  "\<exists>r. measurementForType sample_ext ''ping'' ''1001'' ''4'' ok_cfg = Some (Inr r) \<and> exporter r = pingExporter ''1001''"
  using measurementForType_total [OF sample_hist_ok buckets_ok_cfg, where t = "''ping''" and mid = "''1001''" and ipVersion = "''4''"]
  by auto

text \<open>The configured buckets of a type that has a histogram.\<close>

definition buckets_for :: "string \<Rightarrow> Config \<Rightarrow> float64 list option option" where
  "buckets_for t cfg = (let hb = HistogramBuckets_of cfg in map_of
     [(''ping'', Ping_Rtt hb), (''traceroute'', Traceroute_Rtt hb), (''dns'', DNS_Rtt hb), (''http'', HTTP_Rtt hb)] t)"

lemma buckets_for_types:
  assumes "buckets_for t cfg = Some (Some bs)"
  obtains (ping) "t = ''ping''" and "Ping_Rtt (HistogramBuckets_of cfg) = Some bs"
    | (traceroute) "t = ''traceroute''" and "Traceroute_Rtt (HistogramBuckets_of cfg) = Some bs"
    | (dns) "t = ''dns''" and "DNS_Rtt (HistogramBuckets_of cfg) = Some bs"
    | (http) "t = ''http''" and "HTTP_Rtt (HistogramBuckets_of cfg) = Some bs"
  using assms by (simp add: buckets_for_def Let_def split: if_split_asm)

lemma bucket_map_mem: "b \<in> snd ` set (bucket_map cfg) \<longleftrightarrow> (let hb = HistogramBuckets_of cfg in
    b \<in> slice_of ` {DNS_Rtt hb, HTTP_Rtt hb, Ping_Rtt hb, Traceroute_Rtt hb})"
  by (simp add: bucket_map_def Let_def)

lemma buckets_for_visited:
  assumes "buckets_for t cfg = Some (Some bs)" shows "bs \<in> snd ` set (bucket_map cfg)"
proof -
  have "bs = slice_of (Some bs)" by (simp add: slice_of_def)
  with assms show ?thesis unfolding bucket_map_mem Let_def by (cases rule: buckets_for_types) (metis imageI insertCI)+
qed

definition opts_of :: "float64 list \<Rightarrow> HistogramOpts \<Rightarrow> bool" where
  "opts_of bs o' \<longleftrightarrow> Buckets o' = bs \<and> map fst (ConstLabels o') = [''measurement'', ''ip_version'']"

lemma newRttHistogram_opts:
  "\<exists>o'. ping_newRttHistogram e mid ipVersion (Some bs) = NewHistogram e o' \<and> opts_of bs o'"
  "\<exists>o'. traceroute_newRttHistogram e mid ipVersion (Some bs) = NewHistogram e o' \<and> opts_of bs o'"
  "\<exists>o'. dns_newRttHistogram e mid ipVersion (Some bs) = NewHistogram e o' \<and> opts_of bs o'"
  "\<exists>o'. http_newRttHistogram e mid ipVersion (Some bs) = NewHistogram e o' \<and> opts_of bs o'"
  unfolding ping_newRttHistogram_def traceroute_newRttHistogram_def dns_newRttHistogram_def http_newRttHistogram_def
  by ((rule exI, rule conjI, rule refl, simp add: opts_of_def)+)

lemma made_iff: "Option.bind (NewHistogram e o') (\<lambda>h. Some (f h)) = None \<longleftrightarrow> \<not> hist_ok e o'"
  by (simp add: NewHistogram_def)

lemma histogram_panics:
  assumes "buckets_for t cfg = Some (Some bs)"
  shows "\<exists>o'. opts_of bs o' \<and> (measurementForType e t mid ipVersion cfg = None \<longleftrightarrow> \<not> hist_ok e o')"
proof -
  from assms show ?thesis
  proof (cases rule: buckets_for_types)
    case ping
    from newRttHistogram_opts(1) [of e mid ipVersion bs] ping show ?thesis
      by (auto simp: measurementForType_def ping_NewMeasurement_def Let_def made_iff)
  next
    case traceroute
    from newRttHistogram_opts(2) [of e mid ipVersion bs] traceroute show ?thesis
      by (auto simp: measurementForType_def traceroute_NewMeasurement_def Let_def made_iff)
  next
    case dns
    from newRttHistogram_opts(3) [of e mid ipVersion bs] dns show ?thesis
      by (auto simp: measurementForType_def dns_NewMeasurement_def Let_def made_iff)
  next
    case http
    from newRttHistogram_opts(4) [of e mid ipVersion bs] http show ?thesis
      by (auto simp: measurementForType_def http_NewMeasurement_def Let_def made_iff)
  qed
qed

text \<open>C37: a configuration that passes the validation may still make every result of a type panic. Prometheus wants the bounds
  of a histogram strictly increasing, the validation only non-decreasing: for a validated configuration with finite bounds,
  making a measurement of the type panics exactly when a bound is repeated.\<close>

theorem equal_buckets_panic:
  assumes "Validate order cfg = None" and "set (order (bucket_map cfg)) = set (bucket_map cfg)"
    and "buckets_for t cfg = Some (Some (map Fin xs))"
    and "\<And>o' ys. Buckets o' = map Fin ys \<Longrightarrow> map fst (ConstLabels o') = [''measurement'', ''ip_version''] \<Longrightarrow>
      hist_ok e o' \<longleftrightarrow> sorted_wrt (<) ys"
  shows "measurementForType e t mid ipVersion cfg = None \<longleftrightarrow> \<not> distinct xs"
proof -
  from buckets_for_visited [OF assms(3)] obtain name where "(name, map Fin xs) \<in> set (bucket_map cfg)" by auto
  from Validate_buckets [OF assms(1,2) this] have "sorted xs" by (simp add: isNonDecreasingNonNegative_Fin)
  moreover obtain o' where o': "opts_of (map Fin xs) o' \<and> (measurementForType e t mid ipVersion cfg = None \<longleftrightarrow> \<not> hist_ok e o')"
    using histogram_panics [OF assms(3), of e mid ipVersion] ..
  note d = conjunct1 [OF o', unfolded opts_of_def]
  have "hist_ok e o' \<longleftrightarrow> sorted_wrt (<) xs" by (rule assms(4) [OF conjunct1 [OF d] conjunct2 [OF d]])
  ultimately show ?thesis unfolding conjunct2 [OF o'] strict_sorted_iff by blast
qed

lemma strictly_increasing_Fin: "strictly_increasing (map Fin ys) \<longleftrightarrow> sorted_wrt (<) ys"
proof (induction ys)
  case (Cons y ys)
  then show ?case by (cases ys) (auto intro: less_trans)
qed simp

theorem equal_buckets_panic_witness:
  "Validate rev sample_cfg = None \<and> measurementForType sample_ext ''ping'' ''1001'' ''4'' sample_cfg = None"
proof -
  have v: "Validate rev sample_cfg = None"
    by (simp add: sample_cfg_def Validate_def HasPrefix_def bucket_map_def slice_of_def
        isNonDecreasingNonNegative_def)
  have b: "buckets_for ''ping'' sample_cfg = Some (Some (map Fin [5, 5, 10]))"
    by (simp add: buckets_for_def sample_cfg_def)
  have "measurementForType sample_ext ''ping'' ''1001'' ''4'' sample_cfg = None \<longleftrightarrow> \<not> distinct [5, 5, 10 :: rat]"
    by (rule equal_buckets_panic [OF v _ b]) (simp_all add: sample_ext_def strictly_increasing_Fin)
  with v show ?thesis by simp
qed

end
