(* ===== verification/Metric_Series.thy ===== *)
theory Metric_Series
  imports Measurement
begin

text \<open>
  Prometheus identifies a series by the description and the label values of a metric, and refuses a scrape in
  which a series occurs twice. This theory shows that no two metrics of a measurement collide, except
  for HTTP measurements, where two fetches of one result can.
\<close>

fun series :: "Metric \<Rightarrow> Desc \<times> string list" where
  "series (ConstMetric d v ls) = (d, ls)"
| "series (HistMetric h) = (NewDesc (Namespace (opts h)) (Subsystem (opts h)) (Name (opts h)) (Help (opts h))
     (map fst (ConstLabels (opts h))), map snd (ConstLabels (opts h)))"

section \<open>Exporters with one series per probe\<close>

text \<open>The laws: one call of \<open>Export\<close> sends no series twice, and the first two labels of everything it sends are
  the id of the measurement and the id of the probe.\<close>

locale keyed_exporter = exporter_contract export describe
  for export :: "pkg_vars \<Rightarrow> Result \<Rightarrow> Probe option \<Rightarrow> (Metric list \<times> pkg_vars) option"
    and describe :: "Desc list" +
  fixes mid :: string
  assumes one_each: "export g r po = Some (ms, g') \<Longrightarrow> distinct (map series ms)"
    and probe_label: "export g r (Some p) = Some (ms, g') \<Longrightarrow> m \<in> set ms \<Longrightarrow> snd (series m) ! 1 = Itoa (ID p)"
    and measurement_label: "export g r (Some p) = Some (ms, g') \<Longrightarrow> m \<in> set ms \<Longrightarrow> snd (series m) ! 0 = mid"
    and needs_probe: "export g r None = None"
begin

lemma export_all_labels:
  "export_all export g rs = Some (ms, g') \<Longrightarrow> m \<in> set ms \<Longrightarrow>
     (\<exists>r p. (r, Some p) \<in> set rs \<and> snd (series m) ! 1 = Itoa (ID p)) \<and> snd (series m) ! 0 = mid"
proof (induction rs arbitrary: g ms)
  case (Cons rp rs)
  obtain r po where rp: "rp = (r, po)" by fastforce
  with Cons.prems obtain ms1 g1 ms2 where e: "export g r po = Some (ms1, g1)"
    and rest: "export_all export g1 rs = Some (ms2, g')" and ms: "ms = ms1 @ ms2"
    by (auto split: Option.bind_splits)
  from e obtain p where p: "po = Some p" using needs_probe by (cases po) auto
  from Cons.prems(2) ms consider "m \<in> set ms1" | "m \<in> set ms2" by auto
  then show ?case
  proof cases
    case 1
    with probe_label measurement_label e p rp show ?thesis by fastforce
  next
    case 2
    with Cons.IH [OF rest] rp show ?thesis by fastforce
  qed
qed simp

text \<open>Results of different probes, each with the probe that sent it, give different series.\<close>

lemma export_all_distinct:
  assumes "export_all export g rs = Some (ms, g')" and "distinct (map (PrbId \<circ> fst) rs)"
    and "\<forall>r p. (r, Some p) \<in> set rs \<longrightarrow> ID p = PrbId r"
  shows "distinct (map series ms)"
  using assms
proof (induction rs arbitrary: g ms)
  case (Cons rp rs)
  obtain r po where rp: "rp = (r, po)" by fastforce
  with Cons.prems obtain ms1 g1 ms2 where e: "export g r po = Some (ms1, g1)"
    and rest: "export_all export g1 rs = Some (ms2, g')" and ms: "ms = ms1 @ ms2"
    by (auto split: Option.bind_splits)
  from e obtain p where p: "po = Some p" using needs_probe by (cases po) auto
  have "series a \<noteq> series b" if ab: "a \<in> set ms1" "b \<in> set ms2" for a b
  proof
    assume eq: "series a = series b"
    obtain r' q where q: "(r', Some q) \<in> set rs" "snd (series b) ! 1 = Itoa (ID q)"
      using export_all_labels [OF rest ab(2)] by blast
    with probe_label e p ab(1) eq have "ID p = ID q" by fastforce
    moreover have "ID p = PrbId r" "ID q = PrbId r'" using q(1) Cons.prems(3) rp p by auto
    moreover have "PrbId r \<noteq> PrbId r'" using q(1) Cons.prems(2) rp by force
    ultimately show False by simp
  qed
  then have "set (map series ms1) \<inter> set (map series ms2) = {}" by fastforce
  moreover have "distinct (map series ms2)" using Cons.IH [OF rest] Cons.prems(2,3) by simp
  ultimately show ?case using one_each [OF e] by (simp add: ms)
qed simp

end

interpretation ping_series: keyed_exporter "\<lambda>g r p. map_option (\<lambda>ms. (ms, g)) (ping_Export mid r p)" ping_Describe mid for mid
  by unfold_locales (auto simp: ping_Export_def ping_descs Let_def split: Option.bind_splits if_splits)

interpretation traceroute_series:
  keyed_exporter "\<lambda>g r p. map_option (\<lambda>ms. (ms, g)) (traceroute_Export mid r p)" traceroute_Describe mid for mid
  by unfold_locales (auto simp: traceroute_Export_def traceroute_descs Let_def split: Option.bind_splits if_splits prod.splits)

interpretation ntp_series: keyed_exporter "\<lambda>g r p. map_option (\<lambda>ms. (ms, g)) (ntp_Export mid r p)" ntp_Describe mid for mid
  by unfold_locales (auto simp: ntp_Export_def ntp_descs Let_def split: Option.bind_splits if_splits)

interpretation dns_series: keyed_exporter "\<lambda>g r p. map_option (\<lambda>ms. (ms, g)) (dns_Export mid nsid r p)" dns_Describe mid for mid nsid
  by unfold_locales (auto simp: dns_Export_def dns_descs Let_def split: Option.bind_splits if_splits)

interpretation sslcert_series: keyed_exporter "sslcert_Export e mid" sslcert_Describe mid for e mid
  by unfold_locales (auto simp: sslcert_Export_defs sslcert_descs Let_def split: Option.bind_splits if_splits prod.splits option.splits)

section \<open>Measurements\<close>

fun exporter_id :: "Exporter \<Rightarrow> string" where
  "exporter_id (pingExporter mid) = mid"
| "exporter_id (tracerouteExporter mid) = mid"
| "exporter_id (ntpExporter mid) = mid"
| "exporter_id (dnsExporter mid nsid) = mid"
| "exporter_id (httpExporter mid) = mid"
| "exporter_id (sslCertExporter mid) = mid"

abbreviation measurement_id :: "Measurement \<Rightarrow> string" where
  "measurement_id m \<equiv> exporter_id (exporter m)"

text \<open>The histograms of a measurement as its constructor makes them: at most one, labelled with the id.\<close>

definition own_histogram :: "Measurement \<Rightarrow> bool" where
  "own_histogram r \<longleftrightarrow> length (histograms r) \<le> 1 \<and> (\<forall>h \<in> set (histograms r). Name (opts (Hist h)) = ''rtt_hist'' \<and>
     (\<exists>v. ConstLabels (opts (Hist h)) = [(''measurement'', measurement_id r), (''ip_version'', v)]))"

definition own_probes :: "Measurement \<Rightarrow> bool" where
  "own_probes r \<longleftrightarrow> (\<forall>k p. map_of (probes r) k = Some (Some p) \<longrightarrow> ID p = k)"

lemma Describe_no_histogram: "d \<in> set (Exporter_Describe x) \<Longrightarrow> d_name d \<noteq> ''rtt_hist''"
  by (cases x) (auto simp: ping_Describe_def ping_descs traceroute_Describe_def traceroute_descs ntp_Describe_def ntp_descs
    dns_Describe_def dns_descs http_Describe_def http_descs sslcert_Describe_def sslcert_descs)

lemma Exporter_Export_fun:
  "Exporter_Export e (pingExporter mid) = (\<lambda>g r p. map_option (\<lambda>ms. (ms, g)) (ping_Export mid r p))"
  "Exporter_Export e (tracerouteExporter mid) = (\<lambda>g r p. map_option (\<lambda>ms. (ms, g)) (traceroute_Export mid r p))"
  "Exporter_Export e (ntpExporter mid) = (\<lambda>g r p. map_option (\<lambda>ms. (ms, g)) (ntp_Export mid r p))"
  "Exporter_Export e (dnsExporter mid nsid) = (\<lambda>g r p. map_option (\<lambda>ms. (ms, g)) (dns_Export mid nsid r p))"
  "Exporter_Export e (sslCertExporter mid) = sslcert_Export e mid"
  by (simp_all add: fun_eq_iff)

lemmas keyed_exporters = ping_series.keyed_exporter_axioms traceroute_series.keyed_exporter_axioms
  ntp_series.keyed_exporter_axioms dns_series.keyed_exporter_axioms sslcert_series.keyed_exporter_axioms

lemma Exporter_keyed:
  assumes "\<nexists>mid. x = httpExporter mid"
  shows "keyed_exporter (Exporter_Export e x) (Exporter_Describe x) (exporter_id x)"
  using assms by (cases x) (simp_all add: Exporter_Export_fun keyed_exporters)

lemma distinct_fresh_results:
  assumes "Measurement_wf r" and "distinct order"
  shows "distinct (map PrbId (fresh_results order clock r))"
proof -
  have keys: "map PrbId (List.map_filter (map_of (latest r)) ks) = filter (\<lambda>k. map_of (latest r) k \<noteq> None) ks" for ks
    using assms(1) by (induction ks)
      (auto simp: List.map_filter_simps Measurement_wf_def simp del: map_of_eq_Some_iff split: option.splits)
  show ?thesis unfolding fresh_results_def Let_def
    by (rule distinct_map_filter) (simp add: keys assms(2))
qed

lemma Collect_parts:
  assumes "Measurement_Collect e order clock g r = Some (ms, g')"
  obtains cs where "export_all (Exporter_Export e (exporter r)) g
      (map (\<lambda>v. (v, lookup_ptr (probes r) (PrbId v))) (fresh_results order clock r)) = Some (cs, g')"
    and "ms = cs @ map (\<lambda>h. HistMetric (Hist h)) (histograms r)"
  using assms by (auto simp: Measurement_Collect_def split: Option.bind_splits)

lemma hist_series:
  assumes "own_histogram r" and "h \<in> set (histograms r)"
  shows "d_name (fst (series (HistMetric (Hist h)))) = ''rtt_hist'' \<and> snd (series (HistMetric (Hist h))) ! 0 = measurement_id r"
  using assms by (auto simp: own_histogram_def)

lemma Collect_distinct:
  assumes "Measurement_wf r" and "distinct order" and "\<nexists>mid. exporter r = httpExporter mid"
    and "own_probes r" and "own_histogram r" and "Measurement_Collect e order clock g r = Some (ms, g')"
  shows "distinct (map series ms) \<and> (\<forall>m \<in> set ms. snd (series m) ! 0 = measurement_id r)"
proof -
  let ?rs = "map (\<lambda>v. (v, lookup_ptr (probes r) (PrbId v))) (fresh_results order clock r)"
  let ?hs = "map (\<lambda>h. HistMetric (Hist h)) (histograms r)"
  obtain cs where cs: "export_all (Exporter_Export e (exporter r)) g ?rs = Some (cs, g')" and ms: "ms = cs @ ?hs"
    using assms(6) by (rule Collect_parts)
  have "distinct (map (PrbId \<circ> fst) ?rs)" using distinct_fresh_results [OF assms(1,2)] by (simp add: comp_def)
  moreover have "\<forall>v p. (v, Some p) \<in> set ?rs \<longrightarrow> ID p = PrbId v"
    using assms(4) by (auto simp: own_probes_def lookup_ptr_def split: option.splits)
  ultimately have d: "distinct (map series cs)"
    by (rule keyed_exporter.export_all_distinct [OF Exporter_keyed [OF assms(3)] cs])
  have "described (Exporter_Describe (exporter r)) m" if "m \<in> set cs" for m
    using exporter_impl.export_all_described [OF cs] that by (simp add: list_all_iff)
  then have "d_name (fst (series m)) \<noteq> ''rtt_hist''" if "m \<in> set cs" for m
    using that by (cases m) (force simp: described_def dest: Describe_no_histogram)+
  then have "series m \<noteq> series (HistMetric (Hist h))" if "m \<in> set cs" "h \<in> set (histograms r)" for m h
    using that hist_series [OF assms(5)] by metis
  then have "set (map series cs) \<inter> set (map series ?hs) = {}" by (force simp del: series.simps)
  moreover have "distinct (map series ?hs)"
    using assms(5) by (cases "histograms r") (auto simp: own_histogram_def)
  ultimately have "distinct (map series ms)" using d by (simp add: ms)
  moreover have "snd (series m) ! 0 = measurement_id r" if "m \<in> set ms" for m
    using that hist_series [OF assms(5)] keyed_exporter.export_all_labels [OF Exporter_keyed [OF assms(3)] cs]
    by (auto simp: ms)
  ultimately show ?thesis by blast
qed

text \<open>Two fetches of one HTTP result with the same address, family and method give the same series twice.\<close>

lemma http_duplicate_series:
  assumes "HttpResults res = [h, h']" and "H_DstAddr h' = H_DstAddr h" and "H_Af h' = H_Af h"
    and "H_Method h' = H_Method h" and "http_Export e mid res (Some p) = Some ms"
  shows "\<not> distinct (map series ms)"
  using assms by (auto simp: http_Export_def http_Export_one_def Let_def split: Option.bind_splits)

end
