(* ===== verification/Strategy.thy ===== *)
theory Strategy
  imports Types Metric_Series
begin

text \<open>
  The interface \<open>Strategy\<close> of \<open>atlas/strategy.go\<close> as a locale: what the metrics handler relies on when it
  asks a strategy for measurements. \<open>outcome\<close> relates a state of the strategy and the requested
  ids to the values a call of \<open>MeasurementResults\<close> may return. Both strategies interpret it.
\<close>

lemma exporter_for_id: "exporter_for t mid cfg = Some x \<Longrightarrow> exporter_id x = mid"
  by (auto split: if_splits)

lemma measurementForType_id:
  "measurementForType e t mid ipVersion cfg = Some (Inr r) \<Longrightarrow> measurement_id r = mid"
  by (drule measurementForType_cases) (blast dest: exporter_for_id)

lemma measurementForType_histogram:
  assumes "measurementForType e t mid ipVersion cfg = Some (Inr r)" shows "own_histogram r"
  using assms
  by (auto simp: measurementForType_def NewMeasurement_defs newRttHistogram_defs NewMeasurement_def own_histogram_def
      WithHistograms_def WithValidator_def WithMaxResultAge_def Let_def split: if_splits Option.bind_splits)

lemma measurementForType_wf:
  "measurementForType e t mid ipVersion cfg = Some (Inr r) \<Longrightarrow> Measurement_wf r"
  by (drule measurementForType_cases) (simp add: Measurement_wf_empty)

text \<open>The collector of a scrape (\<open>collector.go\<close>) collects and describes measurement by measurement.\<close>

fun collector_Collect ::
    "ext \<Rightarrow> (Measurement \<Rightarrow> int list) \<Rightarrow> (int \<Rightarrow> time) \<Rightarrow> pkg_vars \<Rightarrow> Measurement list \<Rightarrow> (Metric list \<times> pkg_vars) option" where
  "collector_Collect e order clock g [] = Some ([], g)"
| "collector_Collect e order clock g (m # ms) = do {
     (xs, g') \<leftarrow> Measurement_Collect e (order m) clock g m;
     (ys, g'') \<leftarrow> collector_Collect e order clock g' ms;
     Some (xs @ ys, g'')
   }"

definition collector_Describe :: "Measurement list \<Rightarrow> DescItem list" where
  "collector_Describe ms = concat (map Measurement_Describe ms)"

text \<open>
  What a scrape relies on in a measurement: it is well formed, its probes are answers of the API, its
  histogram is its own, and it has the validator the configuration asks for.
\<close>

definition visits_all :: "(Measurement \<Rightarrow> int list) \<Rightarrow> bool" where
  "visits_all order \<longleftrightarrow> (\<forall>m. set (order m) = fst ` set (latest m) \<and> (gomap_wf (latest m) \<longrightarrow> distinct (order m)))"

definition probes_from :: "(int \<Rightarrow> Probe \<Rightarrow> bool) \<Rightarrow> Measurement \<Rightarrow> bool" where
  "probes_from P m \<longleftrightarrow> (\<forall>k pr. map_of (probes m) k = Some (Some pr) \<longrightarrow> P k pr)"

definition served_ok :: "(int \<Rightarrow> Probe \<Rightarrow> bool) \<Rightarrow> bool \<Rightarrow> Measurement \<Rightarrow> bool" where
  "served_ok P filtered m \<longleftrightarrow> Measurement_wf m \<and> probes_from P m \<and> own_histogram m \<and> (filtered \<longrightarrow> validator m \<noteq> None)"

text \<open>What never changes in a measurement: its exporter and the options of its histograms.\<close>

definition same_object :: "Measurement \<Rightarrow> Measurement \<Rightarrow> bool" where
  "same_object m m' \<longleftrightarrow> exporter m' = exporter m \<and>
     map (\<lambda>h. opts (Hist h)) (histograms m') = map (\<lambda>h. opts (Hist h)) (histograms m)"

lemma same_object_refl [simp]: "same_object m m"
  by (simp add: same_object_def)

lemma same_object_trans [trans]: "same_object m m' \<Longrightarrow> same_object m' m'' \<Longrightarrow> same_object m m''"
  by (simp add: same_object_def)

lemma same_object_Add: "Measurement_Add r p m = Some m' \<Longrightarrow> same_object m m'"
  by (auto simp: same_object_def Measurement_Add_eq split: if_splits)

lemma same_object_Describe: "same_object m m' \<Longrightarrow> Measurement_Describe m' = Measurement_Describe m"
  unfolding same_object_def Measurement_Describe_def
  by (metis (no_types, lifting) list.map_comp comp_def map_eq_conv)

lemma own_histogram_same:
  assumes "same_object m m'" and "own_histogram m" shows "own_histogram m'"
proof -
  note o = assms(1) [unfolded same_object_def, THEN conjunct2]
  have "length (histograms m') = length (histograms m)" using arg_cong [OF o, of length] by simp
  moreover have "\<exists>h' \<in> set (histograms m). opts (Hist h) = opts (Hist h')" if "h \<in> set (histograms m')" for h
  proof -
    have "opts (Hist h) \<in> (\<lambda>h. opts (Hist h)) ` set (histograms m)"
      using arg_cong [OF o, of set] that by auto
    then show ?thesis by blast
  qed
  ultimately show ?thesis using assms unfolding own_histogram_def same_object_def by fastforce
qed

lemma own_histogram_Add: "own_histogram r \<Longrightarrow> Measurement_Add m p r = Some r' \<Longrightarrow> own_histogram r'"
  by (rule own_histogram_same [OF same_object_Add])

lemma own_histogram_add_all: "own_histogram r \<Longrightarrow> Measurement_add_all ms r = Some r' \<Longrightarrow> own_histogram r'"
  by (induction ms r rule: Measurement_add_all.induct) (auto simp: own_histogram_Add split: Option.bind_splits)

definition metric_described :: "DescItem list \<Rightarrow> Metric \<Rightarrow> bool" where
  "metric_described ds m = (case m of
      ConstMetric d v ls \<Rightarrow> ConstDesc d \<in> set ds \<and> length ls = length (d_labels d)
    | HistMetric h \<Rightarrow> HistDesc (opts h) \<in> set ds)"

lemma Describe_mono:
  "set ds \<subseteq> set ds' \<Longrightarrow> metric_described ds m \<Longrightarrow> metric_described ds' m"
  by (auto simp: metric_described_def split: Metric.splits)

lemma collector_described:
  assumes "collector_Collect e order clock g ms = Some (xs, g')"
  shows "\<forall>x \<in> set xs. metric_described (collector_Describe ms) x"
  using assms
proof (induction ms arbitrary: g xs)
  case (Cons m ms)
  then obtain ys zs g1 where c: "Measurement_Collect e (order m) clock g m = Some (ys, g1)"
    and r: "collector_Collect e order clock g1 ms = Some (zs, g')" and xs: "xs = ys @ zs"
    by (auto split: Option.bind_splits)
  have sub: "set (Measurement_Describe m) \<subseteq> set (collector_Describe (m # ms))"
    "set (collector_Describe ms) \<subseteq> set (collector_Describe (m # ms))"
    by (auto simp: collector_Describe_def)
  have "\<forall>x \<in> set ys. metric_described (Measurement_Describe m) x"
    using Collect_described [OF c] by (simp add: metric_described_def)
  with Cons.IH [OF r] sub show ?case by (auto simp: xs intro: Describe_mono)
qed simp

lemma collector_total:
  assumes "\<And>m g. m \<in> set ms \<Longrightarrow> Measurement_Collect e (order m) clock g m \<noteq> None"
  shows "collector_Collect e order clock g ms \<noteq> None"
  using assms
proof (induction ms arbitrary: g)
  case (Cons m ms)
  obtain xs g' where "Measurement_Collect e (order m) clock g m = Some (xs, g')"
    using Cons.prems [of m g] by auto
  moreover obtain ys g'' where "collector_Collect e order clock g' ms = Some (ys, g'')"
    using Cons.IH [of g'] Cons.prems by auto
  ultimately show ?case by simp
qed simp

text \<open>Measurements with different ids send different series.\<close>

lemma collector_distinct:
  assumes "collector_Collect e order clock g ms = Some (xs, g')" and "distinct (map measurement_id ms)"
    and "visits_all order"
    and "\<And>m. m \<in> set ms \<Longrightarrow> Measurement_wf m \<and> own_probes m \<and> own_histogram m \<and> (\<nexists>mid. exporter m = httpExporter mid)"
  shows "distinct (map series xs) \<and> (\<forall>x \<in> set xs. snd (series x) ! 0 \<in> measurement_id ` set ms)"
  using assms(1,2,4)
proof (induction ms arbitrary: g xs)
  case (Cons m ms)
  from Cons.prems(1) obtain ys zs g1 where c: "Measurement_Collect e (order m) clock g m = Some (ys, g1)"
    and r: "collector_Collect e order clock g1 ms = Some (zs, g')" and xs: "xs = ys @ zs"
    by (auto split: Option.bind_splits)
  have m: "Measurement_wf m" "own_probes m" "own_histogram m" "\<nexists>mid. exporter m = httpExporter mid"
    using Cons.prems(3) by simp_all
  have "distinct (order m)" using assms(3) m(1) by (simp add: visits_all_def Measurement_wf_def)
  note one = Collect_distinct [OF m(1) this m(4) m(2,3) c]
  have rest: "distinct (map series zs) \<and> (\<forall>x \<in> set zs. snd (series x) ! 0 \<in> measurement_id ` set ms)"
    using Cons.IH [OF r] Cons.prems(2,3) by simp
  have "measurement_id m \<notin> measurement_id ` set ms" using Cons.prems(2) by simp
  with one rest have "set (map series ys) \<inter> set (map series zs) = {}" by fastforce
  with one rest show ?case by (auto simp: xs)
qed simp

text \<open>
  The contract. The measurements a strategy returns are pointers: \<open>live s m m'\<close> says that \<open>m'\<close> is what a scrape
  may find when it collects the measurement it was given as \<open>m\<close>. Each requested id yields at most one
  measurement; what is collected is fit to be served and is still described by what was registered.
\<close>

locale strategy =
  fixes outcome :: "'s \<Rightarrow> string list \<Rightarrow> Measurement list res \<Rightarrow> bool"
    and live :: "'s \<Rightarrow> Measurement \<Rightarrow> Measurement \<Rightarrow> bool"
    and filtered :: "'s \<Rightarrow> bool"
    and good_probe :: "int \<Rightarrow> Probe \<Rightarrow> bool"
  assumes requested: "outcome s ids (Inr ms) \<Longrightarrow> mset (map measurement_id ms) \<subseteq># mset ids"
    and current: "outcome s ids (Inr ms) \<Longrightarrow> m \<in> set ms \<Longrightarrow> live s m m"
    and served: "outcome s ids (Inr ms) \<Longrightarrow> m \<in> set ms \<Longrightarrow> live s m m' \<Longrightarrow> served_ok good_probe (filtered s) m'"
    and stable: "outcome s ids (Inr ms) \<Longrightarrow> m \<in> set ms \<Longrightarrow> live s m m' \<Longrightarrow> same_object m m'"
begin

lemma live_origin:
  assumes "outcome s ids (Inr ms)" and "list_all2 (live s) ms ms'" and "m' \<in> set ms'"
  obtains m where "m \<in> set ms" and "same_object m m'" and "served_ok good_probe (filtered s) m'"
proof -
  from assms(2,3) obtain m where "m \<in> set ms" and "live s m m'"
    by (metis in_set_conv_nth list_all2_conv_all_nth)
  with that served [OF assms(1)] stable [OF assms(1)] show thesis by blast
qed

lemma live_map:
  assumes "outcome s ids (Inr ms)" and "list_all2 (live s) ms ms'" and "\<And>m m'. same_object m m' \<Longrightarrow> f m' = f m"
  shows "map f ms' = map f ms"
  using assms(2) stable [OF assms(1)] assms(3)
  by (auto simp: list_eq_iff_nth_eq list_all2_conv_all_nth)

lemma live_described:
  assumes "outcome s ids (Inr ms)" and "list_all2 (live s) ms ms'"
    and "collector_Collect e order clock g ms' = Some (xs, g')"
  shows "\<forall>x \<in> set xs. metric_described (collector_Describe ms) x"
  using collector_described [OF assms(3)] live_map [OF assms(1,2) same_object_Describe]
  by (simp add: collector_Describe_def)

text \<open>A scrape of what a strategy returns cannot panic when results are filtered and the API's
  probes have zero, two or more coordinates.\<close>

lemma collect_total:
  assumes "outcome s ids (Inr ms)" and "list_all2 (live s) ms ms'" and "filtered s" and "visits_all order"
    and "\<And>k p. good_probe k p \<Longrightarrow> length (Coordinates p) \<noteq> 1"
  shows "collector_Collect e order clock g ms' \<noteq> None"
proof (rule collector_total)
  fix m g assume "m \<in> set ms'"
  with assms(1,2) have "served_ok good_probe (filtered s) m" by (rule live_origin)
  then have m: "Measurement_wf m" "validator m \<noteq> None" "probes_from good_probe m"
    using assms(3) by (auto simp: served_ok_def)
  then have "\<forall>k pr. map_of (probes m) k = Some (Some pr) \<longrightarrow> length (Coordinates pr) \<noteq> 1"
    using assms(5) unfolding probes_from_def by blast
  moreover have "set (order m) = fst ` set (latest m)" using assms(4) by (simp add: visits_all_def)
  ultimately show "Measurement_Collect e (order m) clock g m \<noteq> None" using m(1,2) by (intro Collect_total)
qed

text \<open>When the probes carry the ids they are stored under, a scrape for different ids sends no series twice
  (HTTP measurements apart).\<close>

lemma collect_distinct:
  assumes "outcome s ids (Inr ms)" and "list_all2 (live s) ms ms'" and "distinct ids" and "visits_all order"
    and "\<And>k p. good_probe k p \<Longrightarrow> ID p = k" and "\<And>m. m \<in> set ms \<Longrightarrow> \<nexists>mid. exporter m = httpExporter mid"
    and "collector_Collect e order clock g ms' = Some (xs, g')"
  shows "distinct (map series xs)"
proof -
  have "map measurement_id ms' = map measurement_id ms"
    by (rule live_map [OF assms(1,2)]) (simp add: same_object_def)
  then have "distinct (map measurement_id ms')" using requested [OF assms(1)] assms(3) by (simp add: distinct_sub_mset)
  moreover have "Measurement_wf m' \<and> own_probes m' \<and> own_histogram m' \<and> (\<nexists>mid. exporter m' = httpExporter mid)"
    if "m' \<in> set ms'" for m'
    using assms(1,2) that
  proof (rule live_origin)
    fix m assume "m \<in> set ms" and "same_object m m'" and "served_ok good_probe (filtered s) m'"
    with assms(5,6) show ?thesis by (auto simp: served_ok_def same_object_def probes_from_def own_probes_def)
  qed
  ultimately show ?thesis using collector_distinct [OF assms(7) _ assms(4)] by blast
qed

end

end
