(* ===== verification/Helper.thy ===== *)
theory Helper
  imports Results
begin

text \<open>
  The probe lookups of package \<open>atlas\<close>: the shared cache and its cleaner (\<open>probe_cache.go\<close>),
  \<open>probeForID\<close>, and the pipeline of \<open>probesForResults\<close> (\<open>helper.go\<close>): a producer of distinct probe
  ids, consumers that look the probes up, and the collecting loop, which communicate over unbuffered
  channels. The pipeline is a step relation with one rule per communication or lookup; an
  unbuffered send and its receive are one step. The lemmas show that it cannot get stuck, that it
  ends, what it returns, and which goroutines it leaves behind.
\<close>

section \<open>The shared cache\<close>

text \<open>The package variable \<open>cache\<close> is nil until \<open>InitCache\<close> has run; \<open>None\<close> as a result is a panic.\<close>

definition InitCache :: "duration \<Rightarrow> Cache option" where
  "InitCache d = Some (NewCache d)"

text \<open>
  The cleaner: \<open>time.NewTicker\<close> panics on a non-positive period; then every tick cleans up (with the clock
  readings of its scan) until the context is done.
\<close>

datatype cleaner_event = Tick "int \<Rightarrow> time" | CtxDone

fun cleaner_loop :: "cleaner_event list \<Rightarrow> Cache \<Rightarrow> Cache" where
  "cleaner_loop [] c = c"
| "cleaner_loop (Tick clock # es) c = cleaner_loop es (fst (CleanUp clock c))"
| "cleaner_loop (CtxDone # es) c = c"

definition startCacheCleanupFunc :: "duration \<Rightarrow> cleaner_event list \<Rightarrow> Cache \<Rightarrow> Cache option" where
  "startCacheCleanupFunc d es c = (if d \<le> 0 then None else Some (cleaner_loop es c))"

definition lookup_error :: "int \<Rightarrow> error \<Rightarrow> error" where
  "lookup_error pid err = ''could not retrieve probe information for probe '' @ Itoa pid @ '': '' @ err"

definition probeForID ::
    "probe_api \<Rightarrow> time \<Rightarrow> time \<Rightarrow> int \<Rightarrow> Cache option \<Rightarrow> (Probe res \<times> Cache option) option" where
  "probeForID api now now' pid shared = do {
     c \<leftarrow> shared;
     Some (case Cache_Get now pid c of
         Some p \<Rightarrow> (Inr p, Some c)
       | None \<Rightarrow> (case probe_Get api pid of
           Inl err \<Rightarrow> (Inl (lookup_error pid err), Some c)
         | Inr p \<Rightarrow> (Inr p, Some (Cache_Add now' pid p c))))
   }"

section \<open>The pipeline\<close>

text \<open>
  A consumer waits for an id, has received one, is asking the API, wants to send a probe or an error,
  or has left its loop. The fields of the state: the probe ids of the results the producer has still
  to visit, the ids it has sent, whether it has closed its channel; the consumers; whether the output
  channel is closed; the collecting loop; the cache; the ids the API has been asked for.
\<close>

datatype consumer = Idle | Got int | Fetching int | HasProbe Probe | HasErr error | Finished

datatype collecting = Collecting "(int, Probe) gomap" | Returned "(int, Probe) gomap res"

record pipe =
  todo :: "int list"
  added :: "int list"
  ch_closed :: bool
  consumers :: "consumer list"
  out_closed :: bool
  collect :: collecting
  pcache :: Cache
  requests :: "int list"

definition pipe_init :: "Result list \<Rightarrow> nat \<Rightarrow> Cache \<Rightarrow> pipe" where
  "pipe_init res workers c = \<lparr>todo = map PrbId res, added = [], ch_closed = False,
     consumers = replicate workers Idle, out_closed = False, collect = Collecting [],
     pcache = c, requests = []\<rparr>"

text \<open>
  The number of consumers: the configured \<open>uint\<close> is converted to \<open>int\<close>, and \<open>wg.Add\<close> panics on a negative number.
  That panic is in a goroutine that recovers nothing, so \<open>None\<close> ends the process.
\<close>

definition consumer_count :: "64 word \<Rightarrow> nat option" where
  "consumer_count workers = (if sint workers < 0 then None else Some (nat (sint workers)))"

abbreviation set_consumer :: "nat \<Rightarrow> consumer \<Rightarrow> pipe \<Rightarrow> pipe" where
  "set_consumer i x s \<equiv> s\<lparr>consumers := (consumers s)[i := x]\<rparr>"

abbreviation consumer_at :: "pipe \<Rightarrow> nat \<Rightarrow> consumer \<Rightarrow> bool" where
  "consumer_at s i x \<equiv> i < length (consumers s) \<and> consumers s ! i = x"

inductive pipe_step :: "probe_api \<Rightarrow> pipe \<Rightarrow> pipe \<Rightarrow> bool" for api where
  skip: "todo s = k # ks \<Longrightarrow> k \<in> set (added s) \<Longrightarrow> pipe_step api s (s\<lparr>todo := ks\<rparr>)"
| send: "todo s = k # ks \<Longrightarrow> k \<notin> set (added s) \<Longrightarrow> consumer_at s i Idle \<Longrightarrow>
    pipe_step api s (set_consumer i (Got k) (s\<lparr>todo := ks, added := k # added s\<rparr>))"
| close: "todo s = [] \<Longrightarrow> \<not> ch_closed s \<Longrightarrow> pipe_step api s (s\<lparr>ch_closed := True\<rparr>)"
| finish: "ch_closed s \<Longrightarrow> consumer_at s i Idle \<Longrightarrow> pipe_step api s (set_consumer i Finished s)"
| hit: "consumer_at s i (Got k) \<Longrightarrow> Cache_Get now k (pcache s) = Some p \<Longrightarrow>
    pipe_step api s (set_consumer i (HasProbe p) s)"
| miss: "consumer_at s i (Got k) \<Longrightarrow> Cache_Get now k (pcache s) = None \<Longrightarrow>
    pipe_step api s (set_consumer i (Fetching k) s)"
| fetched: "consumer_at s i (Fetching k) \<Longrightarrow> probe_Get api k = Inr p \<Longrightarrow>
    pipe_step api s (set_consumer i (HasProbe p)
      (s\<lparr>pcache := Cache_Add now k p (pcache s), requests := k # requests s\<rparr>))"
| failed: "consumer_at s i (Fetching k) \<Longrightarrow> probe_Get api k = Inl err \<Longrightarrow>
    pipe_step api s (set_consumer i (HasErr (lookup_error k err)) (s\<lparr>requests := k # requests s\<rparr>))"
| deliver: "consumer_at s i (HasProbe p) \<Longrightarrow> collect s = Collecting ps \<Longrightarrow>
    pipe_step api s (set_consumer i Idle (s\<lparr>collect := Collecting (AList.update (ID p) p ps)\<rparr>))"
| report: "consumer_at s i (HasErr err) \<Longrightarrow> collect s = Collecting ps \<Longrightarrow>
    pipe_step api s (set_consumer i Idle (s\<lparr>collect := Returned (Inl err)\<rparr>))"
| close_out: "list_all (\<lambda>x. x = Finished) (consumers s) \<Longrightarrow> \<not> out_closed s \<Longrightarrow>
    pipe_step api s (s\<lparr>out_closed := True\<rparr>)"
| return: "out_closed s \<Longrightarrow> collect s = Collecting ps \<Longrightarrow>
    pipe_step api s (s\<lparr>collect := Returned (Inr ps)\<rparr>)"

text \<open>
  Other goroutines may change the shared cache between any two steps. What they put there is an answer
  for the probe (\<open>ans k p\<close>: \<open>p\<close> is or was the API's answer for \<open>k\<close>).
\<close>

definition coherent :: "(int \<Rightarrow> Probe \<Rightarrow> bool) \<Rightarrow> Cache \<Rightarrow> bool" where
  "coherent ans c \<longleftrightarrow> (\<forall>k item. map_of (cache c) k = Some item \<longrightarrow> ans k (value_of item))"

inductive env_step :: "(int \<Rightarrow> Probe \<Rightarrow> bool) \<Rightarrow> pipe \<Rightarrow> pipe \<Rightarrow> bool" for ans where
  interfere: "coherent ans c \<Longrightarrow> env_step ans s (s\<lparr>pcache := c\<rparr>)"

inductive_simps env_step_iff: "env_step ans s t"

definition answers :: "probe_api \<Rightarrow> (int \<Rightarrow> Probe \<Rightarrow> bool) \<Rightarrow> bool" where
  "answers api ans \<longleftrightarrow> (\<forall>k p. probe_Get api k = Inr p \<longrightarrow> ans k p)"

text \<open>A run of the pipeline among others. What the API answers may change from step to step, within \<open>ans\<close>.\<close>

inductive run_step :: "(int \<Rightarrow> Probe \<Rightarrow> bool) \<Rightarrow> pipe \<Rightarrow> pipe \<Rightarrow> bool" for ans where
  own: "answers api ans \<Longrightarrow> pipe_step api s t \<Longrightarrow> run_step ans s t"
| env: "env_step ans s t \<Longrightarrow> run_step ans s t"

definition pipe_run :: "(int \<Rightarrow> Probe \<Rightarrow> bool) \<Rightarrow> pipe \<Rightarrow> pipe \<Rightarrow> bool" where
  "pipe_run ans = (run_step ans)\<^sup>*\<^sup>*"

subsection \<open>The lookup of a consumer\<close>

fun after_lookup :: "Probe res \<Rightarrow> consumer" where
  "after_lookup (Inr p) = HasProbe p"
| "after_lookup (Inl err) = HasErr err"

text \<open>Undisturbed, the steps of a consumer that has received an id are the call of \<open>probeForID\<close>.\<close>

lemma consumer_probeForID:
  assumes "consumer_at s i (Got k)" and "probeForID api now now' k (Some (pcache s)) = Some (r, Some c)"
  shows "\<exists>rq. (pipe_step api)\<^sup>*\<^sup>* s (set_consumer i (after_lookup r) (s\<lparr>pcache := c, requests := rq\<rparr>))"
proof (cases "Cache_Get now k (pcache s)")
  case (Some p)
  with assms have "pipe_step api s (set_consumer i (after_lookup r) (s\<lparr>pcache := c, requests := requests s\<rparr>))"
    using pipe_step.hit [OF assms(1) Some, of api] by (auto simp: probeForID_def)
  then show ?thesis by blast
next
  case None
  let ?f = "set_consumer i (Fetching k) s"
  have 1: "pipe_step api s ?f" by (rule pipe_step.miss [OF assms(1) None])
  have at: "consumer_at ?f i (Fetching k)" using assms(1) by simp
  have "\<exists>rq. pipe_step api ?f (set_consumer i (after_lookup r) (s\<lparr>pcache := c, requests := rq\<rparr>))"
  proof (cases "probe_Get api k")
    case (Inl err)
    with assms(2) None show ?thesis
      using pipe_step.failed [OF at Inl] by (intro exI [of _ "k # requests s"]) (auto simp: probeForID_def)
  next
    case (Inr p)
    with assms(2) None have "r = Inr p" "c = Cache_Add now' k p (pcache s)" by (simp_all add: probeForID_def)
    then show ?thesis
      using pipe_step.fetched [OF at Inr, of now'] by (intro exI [of _ "k # requests s"]) simp
  qed
  with 1 show ?thesis by (meson converse_rtranclp_into_rtranclp r_into_rtranclp)
qed

section \<open>Progress and termination\<close>

lemma pipe_progress:
  assumes "collect s = Collecting ps" shows "\<exists>s'. pipe_step api s s'"
proof (cases "list_all (\<lambda>x. x = Finished) (consumers s)")
  case True
  with assms show ?thesis by (cases "out_closed s") (blast intro: pipe_step.intros)+
next
  case False
  then obtain i x where x: "consumer_at s i x" "x \<noteq> Finished" by (auto simp: list_all_length)
  show ?thesis
  proof (cases x)
    case Idle
    with x have i: "consumer_at s i Idle" by simp
    show ?thesis
    proof (cases "todo s")
      case Nil
      with i show ?thesis by (cases "ch_closed s") (blast intro: pipe_step.intros)+
    next
      case (Cons k ks)
      with i show ?thesis by (cases "k \<in> set (added s)") (blast intro: pipe_step.intros)+
    qed
  next
    case (Got k)
    with x show ?thesis by (cases "Cache_Get 0 k (pcache s)") (blast intro: pipe_step.intros)+
  next
    case (Fetching k)
    with x show ?thesis by (cases "probe_Get api k") (blast intro: pipe_step.intros)+
  qed (use assms x in \<open>blast intro: pipe_step.intros\<close>)+
qed

fun consumer_work :: "consumer \<Rightarrow> nat" where
  "consumer_work Idle = 1"
| "consumer_work (Got k) = 5"
| "consumer_work (Fetching k) = 4"
| "consumer_work (HasProbe p) = 3"
| "consumer_work (HasErr e) = 3"
| "consumer_work Finished = 0"

definition pipe_work :: "pipe \<Rightarrow> nat" where
  "pipe_work s = 8 * length (todo s) + (if ch_closed s then 0 else 1) +
     sum_list (map consumer_work (consumers s)) + (if out_closed s then 0 else 1) +
     (case collect s of Collecting _ \<Rightarrow> 1 | Returned _ \<Rightarrow> 0)"

lemma consumer_work_le: "consumer_at s i x \<Longrightarrow> consumer_work x \<le> sum_list (map consumer_work (consumers s))"
  using elem_le_sum_list [of i "map consumer_work (consumers s)"] by auto

lemma pipe_step_decreases: "pipe_step api s s' \<Longrightarrow> pipe_work s' < pipe_work s"
  by (induction rule: pipe_step.induct)
    (use consumer_work_le in \<open>force simp: pipe_work_def sum_list_update_nat\<close>)+

lemma pipe_returns: "\<exists>s' r. (pipe_step api)\<^sup>*\<^sup>* s s' \<and> collect s' = Returned r"
proof (induction "pipe_work s" arbitrary: s rule: less_induct)
  case less
  show ?case
  proof (cases "collect s")
    case (Collecting ps)
    then obtain t where t: "pipe_step api s t" using pipe_progress by blast
    with less [OF pipe_step_decreases [OF t]] show ?thesis
      by (meson converse_rtranclp_into_rtranclp)
  qed blast
qed

section \<open>The invariant\<close>

text \<open>
  \<open>ids\<close> are the probe ids of the results. An id is \<open>served\<close> when a consumer is at work on it, when an
  answer for it is in the map, or when the lookup fails anyway.
\<close>

fun holding :: "consumer \<Rightarrow> int list" where
  "holding (Got k) = [k]"
| "holding (Fetching k) = [k]"
| "holding _ = []"

fun consumer_ok :: "(int \<Rightarrow> Probe \<Rightarrow> bool) \<Rightarrow> int set \<Rightarrow> consumer \<Rightarrow> bool" where
  "consumer_ok ans ids (HasProbe p) \<longleftrightarrow> (\<exists>k \<in> ids. ans k p)"
| "consumer_ok ans ids x \<longleftrightarrow> set (holding x) \<subseteq> ids"

fun consumer_serves :: "(int \<Rightarrow> Probe \<Rightarrow> bool) \<Rightarrow> int \<Rightarrow> consumer \<Rightarrow> bool" where
  "consumer_serves ans k (HasProbe p) \<longleftrightarrow> ans k p"
| "consumer_serves ans k (HasErr e) \<longleftrightarrow> True"
| "consumer_serves ans k x \<longleftrightarrow> k \<in> set (holding x)"

definition probes_ok :: "(int \<Rightarrow> Probe \<Rightarrow> bool) \<Rightarrow> int set \<Rightarrow> (int, Probe) gomap \<Rightarrow> bool" where
  "probes_ok ans ids ps \<longleftrightarrow> (\<forall>k p. map_of ps k = Some p \<longrightarrow> ID p = k \<and> (\<exists>j \<in> ids. ans j p))"

definition answered :: "(int \<Rightarrow> Probe \<Rightarrow> bool) \<Rightarrow> int \<Rightarrow> (int, Probe) gomap \<Rightarrow> bool" where
  "answered ans k ps \<longleftrightarrow> (\<exists>p. ans k p \<and> ID p \<in> fst ` set ps)"

fun collect_ok :: "(int \<Rightarrow> Probe \<Rightarrow> bool) \<Rightarrow> int set \<Rightarrow> collecting \<Rightarrow> bool" where
  "collect_ok ans ids (Collecting ps) \<longleftrightarrow> probes_ok ans ids ps"
| "collect_ok ans ids (Returned (Inr ps)) \<longleftrightarrow> probes_ok ans ids ps"
| "collect_ok ans ids (Returned (Inl e)) \<longleftrightarrow> True"

fun collect_serves :: "(int \<Rightarrow> Probe \<Rightarrow> bool) \<Rightarrow> int \<Rightarrow> collecting \<Rightarrow> bool" where
  "collect_serves ans k (Collecting ps) \<longleftrightarrow> answered ans k ps"
| "collect_serves ans k (Returned (Inr ps)) \<longleftrightarrow> answered ans k ps"
| "collect_serves ans k (Returned (Inl e)) \<longleftrightarrow> True"

definition served :: "(int \<Rightarrow> Probe \<Rightarrow> bool) \<Rightarrow> pipe \<Rightarrow> int \<Rightarrow> bool" where
  "served ans s k \<longleftrightarrow> (\<exists>x \<in> set (consumers s). consumer_serves ans k x) \<or> collect_serves ans k (collect s)"

definition pipe_ok :: "(int \<Rightarrow> Probe \<Rightarrow> bool) \<Rightarrow> int set \<Rightarrow> pipe \<Rightarrow> bool" where
  "pipe_ok ans ids s \<longleftrightarrow>
     coherent ans (pcache s) \<and> set (todo s) \<union> set (added s) = ids \<and>
     (\<forall>x \<in> set (consumers s). consumer_ok ans ids x) \<and> collect_ok ans ids (collect s) \<and>
     (\<forall>k \<in> set (added s). served ans s k)"

definition pipe_phase :: "nat \<Rightarrow> pipe \<Rightarrow> bool" where
  "pipe_phase workers s \<longleftrightarrow>
     length (consumers s) = workers \<and> (ch_closed s \<longrightarrow> todo s = []) \<and>
     (Finished \<in> set (consumers s) \<longrightarrow> ch_closed s) \<and>
     (out_closed s \<longrightarrow> list_all (\<lambda>x. x = Finished) (consumers s)) \<and>
     (\<forall>ps. collect s = Returned (Inr ps) \<longrightarrow> out_closed s)"

definition held :: "pipe \<Rightarrow> int multiset" where
  "held s = (\<Sum>x\<leftarrow>consumers s. mset (holding x)) + mset (requests s)"

definition asked_once :: "pipe \<Rightarrow> bool" where
  "asked_once s \<longleftrightarrow> distinct (added s) \<and> held s \<subseteq># mset (added s)"

lemma coherent_Get: "coherent ans c \<Longrightarrow> Cache_Get now k c = Some p \<Longrightarrow> ans k p"
  by (auto simp: coherent_def Cache_Get_def split: option.splits if_splits)

lemma coherent_Add: "coherent ans c \<Longrightarrow> ans k p \<Longrightarrow> coherent ans (Cache_Add now k p c)"
  by (auto simp: coherent_def Cache_Add_def gomap_simps split: if_splits)

lemma pipe_step_coherent:
  "pipe_step api s t \<Longrightarrow> answers api ans \<Longrightarrow> coherent ans (pcache s) \<Longrightarrow> coherent ans (pcache t)"
  by (induction rule: pipe_step.induct) (auto simp: answers_def coherent_Add)

lemma pipe_phase_consumer:
  assumes "pipe_phase w s" and "consumer_at s i x" and "x \<noteq> Finished"
    and "consumers t = (consumers s)[i := y]" and "y = Finished \<Longrightarrow> ch_closed s"
    and "ch_closed t = ch_closed s" and "ch_closed s \<Longrightarrow> todo t = []" and "out_closed t = out_closed s"
    and "\<And>ps. collect t = Returned (Inr ps) \<Longrightarrow> collect s = Returned (Inr ps)"
  shows "pipe_phase w t"
proof -
  have "\<not> out_closed s" using assms(1-3) by (auto simp: pipe_phase_def list_all_length)
  moreover have "Finished \<in> set (consumers t) \<Longrightarrow> ch_closed s"
    using assms(1,4,5) set_update_subset_insert [of "consumers s" i y] by (auto simp: pipe_phase_def)
  ultimately show ?thesis using assms by (auto simp: pipe_phase_def)
qed

lemma pipe_phase_step:
  assumes "pipe_step api s s'" and "pipe_phase w s" shows "pipe_phase w s'"
  using assms(1)
proof cases
  case (skip k ks)
  with assms(2) show ?thesis by (auto simp: pipe_phase_def)
next
  case close
  with assms(2) show ?thesis by (simp add: pipe_phase_def)
next
  case close_out
  with assms(2) show ?thesis by (simp add: pipe_phase_def)
next
  case (return ps)
  with assms(2) show ?thesis by (simp add: pipe_phase_def)
qed (rule pipe_phase_consumer [OF assms(2)], assumption, use assms(2) in \<open>(auto simp: pipe_phase_def; fail)+\<close>)+

lemma asked_once_consumer:
  assumes "asked_once s" and "consumer_at s i x" and "consumers t = (consumers s)[i := y]"
    and "distinct (added s) \<Longrightarrow> distinct (added t)"
    and "mset (holding y) + mset (requests t) + mset (added s)
      \<subseteq># mset (holding x) + mset (requests s) + mset (added t)"
  shows "asked_once t"
proof -
  have "(\<Sum>x\<leftarrow>consumers t. mset (holding x)) + mset (holding x) = (\<Sum>x\<leftarrow>consumers s. mset (holding x)) + mset (holding y)"
    using sum_list_mset_update [of i "consumers s" "\<lambda>x. mset (holding x)" y] assms(2,3) by simp
  then have "held t + (mset (holding x) + mset (requests s) + mset (added s))
      = held s + (mset (holding y) + mset (requests t) + mset (added s))"
    unfolding held_def by (simp add: ac_simps)
  also have "\<dots> \<subseteq># mset (added s) + (mset (holding x) + mset (requests s) + mset (added t))"
    using assms(1,5) unfolding asked_once_def by (blast intro: subset_mset.add_mono)
  finally have "held t \<subseteq># mset (added t)"
    by (simp add: ac_simps)
  with assms(1,4) show ?thesis by (simp add: asked_once_def)
qed

lemma asked_once_step:
  assumes "pipe_step api s s'" and "asked_once s" shows "asked_once s'"
  using assms(1)
proof cases
  case (skip k ks)
  with assms(2) show ?thesis by (simp add: asked_once_def held_def)
next
  case close
  with assms(2) show ?thesis by (simp add: asked_once_def held_def)
next
  case close_out
  with assms(2) show ?thesis by (simp add: asked_once_def held_def)
next
  case (return ps)
  with assms(2) show ?thesis by (simp add: asked_once_def held_def)
qed (rule asked_once_consumer [OF assms(2)], assumption, (simp; fail)+)+

lemma answered_update: "answered ans k ps \<Longrightarrow> answered ans k (AList.update j p ps)"
  by (auto simp: answered_def gomap_simps)

lemma answered_new: "ans k p \<Longrightarrow> answered ans k (AList.update (ID p) p ps)"
  by (auto simp: answered_def gomap_simps)

lemma probes_ok_update:
  "probes_ok ans ids ps \<Longrightarrow> \<exists>j \<in> ids. ans j p \<Longrightarrow> probes_ok ans ids (AList.update (ID p) p ps)"
  by (auto simp: probes_ok_def gomap_simps)

lemma consumer_ok_at: "pipe_ok ans ids s \<Longrightarrow> consumer_at s i x \<Longrightarrow> consumer_ok ans ids x"
  by (auto simp: pipe_ok_def)

lemma pipe_ok_consumer:
  assumes "pipe_ok ans ids s" and "consumer_at s i x" and "consumers t = (consumers s)[i := y]"
    and "consumer_ok ans ids y" and "coherent ans (pcache t)" and "set (todo t) \<union> set (added t) = ids"
    and "collect_ok ans ids (collect t)"
    and "\<And>k. collect_serves ans k (collect s) \<Longrightarrow> collect_serves ans k (collect t)"
    and "\<And>k. consumer_serves ans k x \<Longrightarrow> consumer_serves ans k y \<or> collect_serves ans k (collect t)"
    and "\<And>k. k \<in> set (added t) \<Longrightarrow> k \<in> set (added s) \<or> consumer_serves ans k y"
  shows "pipe_ok ans ids t"
proof -
  have y: "y \<in> set (consumers t)" using assms(2,3) by (simp add: set_update_memI)
  have "served ans t k" if k: "k \<in> set (added t)" for k
  proof (cases "k \<in> set (added s)")
    case True
    with assms(1) have "served ans s k" by (simp add: pipe_ok_def)
    with assms(2,3,8,9) bex_set_update [of i "consumers s" "consumer_serves ans k" y]
    show ?thesis unfolding served_def by auto
  next
    case False
    with assms(10) k y show ?thesis by (auto simp: served_def)
  qed
  moreover have "\<forall>x \<in> set (consumers t). consumer_ok ans ids x"
    using assms(1,3,4) ball_set_update [of "consumers s" "consumer_ok ans ids" y i] by (simp add: pipe_ok_def)
  ultimately show ?thesis using assms(5-7) by (simp add: pipe_ok_def)
qed

lemma pipe_ok_step:
  assumes "pipe_step api s s'" and "pipe_ok ans ids s" and "answers api ans"
  shows "pipe_ok ans ids s'"
proof -
  note ok = assms(2) [unfolded pipe_ok_def]
  from assms(1) show ?thesis
  proof cases
  case (skip k ks)
  with assms(2) show ?thesis by (auto simp: pipe_ok_def served_def)
next
  case close
  with assms(2) show ?thesis by (simp add: pipe_ok_def served_def)
next
  case close_out
  with assms(2) show ?thesis by (simp add: pipe_ok_def served_def)
next
  case (return ps)
  with assms(2) show ?thesis by (simp add: pipe_ok_def served_def)
next
  case (hit i k now p)
  with ok consumer_ok_at [OF assms(2) hit(2)] have "ans k p" "k \<in> ids"
    by (auto simp: coherent_Get)
  then show ?thesis
    by (intro pipe_ok_consumer [OF assms(2) hit(2), where y = "HasProbe p"]) (use hit ok in auto)
next
  case (fetched i k p now)
  with assms(3) consumer_ok_at [OF assms(2) fetched(2)] have "ans k p" "k \<in> ids"
    by (auto simp: answers_def)
  then show ?thesis
    by (intro pipe_ok_consumer [OF assms(2) fetched(2), where y = "HasProbe p"])
      (use fetched ok in \<open>auto simp: coherent_Add\<close>)
next
  case (send k ks i)
  show ?thesis
    by (rule pipe_ok_consumer [OF assms(2) send(4), where y = "Got k"]) (use send ok in auto)
next
  case (finish i)
  show ?thesis
    by (rule pipe_ok_consumer [OF assms(2) finish(3), where y = Finished]) (use finish ok in auto)
next
  case (miss i k now)
  show ?thesis
    by (rule pipe_ok_consumer [OF assms(2) miss(2), where y = "Fetching k"])
      (use miss ok consumer_ok_at [OF assms(2) miss(2)] in auto)
next
  case (failed i k err)
  show ?thesis
    by (rule pipe_ok_consumer [OF assms(2) failed(2), where y = "HasErr (lookup_error k err)"])
      (use failed ok in auto)
next
  case (deliver i p ps)
  show ?thesis
    by (rule pipe_ok_consumer [OF assms(2) deliver(2), where y = Idle])
      (use deliver ok consumer_ok_at [OF assms(2) deliver(2)]
        in \<open>auto simp: answered_update answered_new probes_ok_update\<close>)
next
  case (report i err ps)
  show ?thesis
    by (rule pipe_ok_consumer [OF assms(2) report(2), where y = Idle]) (use report ok in auto)
qed
qed

lemma pipe_init_ok:
  assumes "coherent ans c"
  shows "pipe_ok ans (PrbId ` set res) (pipe_init res w c)" and "pipe_phase w (pipe_init res w c)"
    and "asked_once (pipe_init res w c)"
  using assms by (simp_all add: pipe_init_def pipe_ok_def probes_ok_def pipe_phase_def asked_once_def held_def)

lemma pipe_run_ok:
  assumes "pipe_run ans (pipe_init res w c) s" and "coherent ans c"
  shows "pipe_ok ans (PrbId ` set res) s \<and> pipe_phase w s \<and> asked_once s"
  using assms(1) unfolding pipe_run_def
proof (induction rule: rtranclp_induct)
  case base
  show ?case using pipe_init_ok [OF assms(2)] by blast
next
  case (step s t)
  from step.hyps(2) show ?case
  proof cases
    case (own api)
    with step.IH show ?thesis by (meson pipe_ok_step pipe_phase_step asked_once_step)
  next
    case env
    then show ?thesis using step.IH
      by (auto simp: pipe_ok_def served_def pipe_phase_def asked_once_def held_def env_step_iff)
  qed
qed

lemma pipe_phase_returned:
  assumes "pipe_phase w s" and "collect s = Returned (Inr ps)" and "0 < w"
  shows "todo s = []" and "set (consumers s) = {Finished}"
proof -
  from assms have fin: "list_all (\<lambda>x. x = Finished) (consumers s)" "consumers s \<noteq> []"
    by (auto simp: pipe_phase_def)
  then show f: "set (consumers s) = {Finished}"
    by (cases "consumers s") (auto simp: list_all_iff)
  with assms show "todo s = []" by (auto simp: pipe_phase_def)
qed

lemma pipe_env_collect: "env_step ans s t \<Longrightarrow> collect t = collect s \<and> consumers t = consumers s \<and> out_closed t = out_closed s"
  by (auto simp: env_step_iff)

lemma lookup_complete:
  assumes "coherent ans c" and "0 < workers"
    and "pipe_run ans (pipe_init res workers c) s" and "collect s = Returned (Inr ps)"
  shows "(\<forall>k p. map_of ps k = Some p \<longrightarrow> ID p = k \<and> (\<exists>r \<in> set res. ans (PrbId r) p)) \<and>
    (\<forall>r \<in> set res. \<exists>p q. ans (PrbId r) p \<and> map_of ps (ID p) = Some q) \<and>
    ((\<forall>k p. ans k p \<longrightarrow> ID p = k) \<longrightarrow> dom (map_of ps) = PrbId ` set res)"
proof -
  note inv = pipe_run_ok [OF assms(3,1)]
  note fin = pipe_phase_returned [OF _ assms(4,2)]
  have ok: "probes_ok ans (PrbId ` set res) ps" using inv assms(4) by (simp add: pipe_ok_def)
  have "answered ans k ps" if "k \<in> PrbId ` set res" for k
    using that inv fin assms(4) by (auto simp: pipe_ok_def served_def)
  then have all: "\<forall>r \<in> set res. \<exists>p q. ans (PrbId r) p \<and> map_of ps (ID p) = Some q"
    unfolding answered_def by (metis image_eqI map_of_eq_None_iff not_None_eq)
  with ok show ?thesis unfolding probes_ok_def by fastforce
qed

lemma lookup_no_workers:
  assumes "pipe_run ans (pipe_init res 0 c) s"
  shows "consumers s = [] \<and> added s = [] \<and> todo s = map PrbId res \<and> requests s = [] \<and>
    (collect s = Collecting [] \<or> collect s = Returned (Inr []))"
  using assms unfolding pipe_run_def
proof (induction rule: rtranclp_induct)
  case base
  show ?case by (simp add: pipe_init_def)
next
  case (step s t)
  from step.hyps(2) show ?case
  proof cases
    case (own api)
    from own(2) show ?thesis by cases (use step.IH in auto)
  next
    case env
    with step.IH show ?thesis by (auto simp: env_step_iff)
  qed
qed

section \<open>Properties\<close>

text \<open>C6: when the lookup succeeds, with at least one worker, in any interleaving of its goroutines and
  of other users of the cache: every entry of the map it returns is an answer for the probe of one of the
  results, stored under the id the answer carries; and every result's probe has been answered. When the
  answers carry the ids that were asked for, the map has exactly the probes of the results as keys.\<close>

theorem probes_complete:
  assumes "coherent ans c" and "0 < workers"
    and "pipe_run ans (pipe_init res workers c) s" and "collect s = Returned (Inr ps)"
  shows "(\<forall>k p. map_of ps k = Some p \<longrightarrow> ID p = k \<and> (\<exists>r \<in> set res. ans (PrbId r) p)) \<and>
    (\<forall>r \<in> set res. \<exists>p q. ans (PrbId r) p \<and> map_of ps (ID p) = Some q) \<and>
    ((\<forall>k p. ans k p \<longrightarrow> ID p = k) \<longrightarrow> dom (map_of ps) = PrbId ` set res)"
  by (rule lookup_complete [OF assms])

definition sample_api :: probe_api where
  "sample_api = \<lparr>client_Get = (\<lambda>u. if u = url @ Itoa 6031 then Inr (Inr []) else Inl ''404''), Unmarshal = (\<lambda>bs. Inr sample_probe)\<rparr>"

definition sample_hop_result :: Result where
  "sample_hop_result = zero_Result\<lparr>PrbId := 6031\<rparr>"

definition sample_run_end :: pipe where
  "sample_run_end = \<lparr>todo = [], added = [6031], ch_closed = True, consumers = [Finished], out_closed = True,
     collect = Returned (Inr [(6031, sample_probe)]),
     pcache = Cache_Add 0 6031 sample_probe (NewCache 10), requests = [6031]\<rparr>"

lemma sample_probe_ID: "ID sample_probe = 6031"
  by (simp add: sample_probe_def)

lemma sample_probe_Get: "probe_Get sample_api k = (if k = 6031 then Inr sample_probe else Inl ''404'')"
  by (simp add: probe_Get_def sample_api_def FromJSON_def Itoa_inject)

lemma sample_answers: "answers sample_api (\<lambda>k p. k = 6031 \<and> p = sample_probe)"
  by (simp add: answers_def sample_probe_Get)

lemma sample_run:
  "(pipe_step sample_api)\<^sup>*\<^sup>* (pipe_init [sample_hop_result] 1 (NewCache 10)) sample_run_end"
proof -
  let ?c = "NewCache 10" and ?d = "Cache_Add 0 6031 sample_probe (NewCache 10)" and ?S = "pipe_step sample_api"
  let ?r = "Collecting [(6031, sample_probe)]"
  note d = pipe.defs sample_probe_Get sample_probe_ID
  have "?S (pipe.make [6031] [] False [Idle] False (Collecting []) ?c [])
      (pipe.make [] [6031] False [Got 6031] False (Collecting []) ?c [])"
    using pipe_step.send [where s = "pipe.make [6031] [] False [Idle] False (Collecting []) ?c []" and i = 0] by (simp add: d)
  moreover have "?S (pipe.make [] [6031] False [Got 6031] False (Collecting []) ?c [])
      (pipe.make [] [6031] False [Fetching 6031] False (Collecting []) ?c [])"
    using pipe_step.miss [where s = "pipe.make [] [6031] False [Got 6031] False (Collecting []) ?c []" and i = 0 and now = 0 and k = 6031] by (simp add: d)
  moreover have "?S (pipe.make [] [6031] False [Fetching 6031] False (Collecting []) ?c [])
      (pipe.make [] [6031] False [HasProbe sample_probe] False (Collecting []) ?d [6031])"
    using pipe_step.fetched [where s = "pipe.make [] [6031] False [Fetching 6031] False (Collecting []) ?c []" and i = 0 and now = 0 and k = 6031]
    by (simp add: d)
  moreover have "?S (pipe.make [] [6031] False [HasProbe sample_probe] False (Collecting []) ?d [6031])
      (pipe.make [] [6031] False [Idle] False ?r ?d [6031])"
    using pipe_step.deliver [where s = "pipe.make [] [6031] False [HasProbe sample_probe] False (Collecting []) ?d [6031]" and i = 0 and p = sample_probe]
    by (simp add: d)
  moreover have "?S (pipe.make [] [6031] False [Idle] False ?r ?d [6031]) (pipe.make [] [6031] True [Idle] False ?r ?d [6031])"
    using pipe_step.close [where s = "pipe.make [] [6031] False [Idle] False ?r ?d [6031]"] by (simp add: d)
  moreover have "?S (pipe.make [] [6031] True [Idle] False ?r ?d [6031]) (pipe.make [] [6031] True [Finished] False ?r ?d [6031])"
    using pipe_step.finish [where s = "pipe.make [] [6031] True [Idle] False ?r ?d [6031]" and i = 0] by (simp add: d)
  moreover have "?S (pipe.make [] [6031] True [Finished] False ?r ?d [6031]) (pipe.make [] [6031] True [Finished] True ?r ?d [6031])"
    using pipe_step.close_out [where s = "pipe.make [] [6031] True [Finished] False ?r ?d [6031]"] by (simp add: d)
  moreover have "?S (pipe.make [] [6031] True [Finished] True ?r ?d [6031]) sample_run_end"
    using pipe_step.return [where s = "pipe.make [] [6031] True [Finished] True ?r ?d [6031]"]
    by (simp add: d sample_run_end_def)
  moreover have "pipe_init [sample_hop_result] 1 ?c = pipe.make [6031] [] False [Idle] False (Collecting []) ?c []"
    by (simp add: d pipe_init_def sample_hop_result_def)
  ultimately show ?thesis by (simp add: converse_rtranclp_into_rtranclp)
qed

lemma pipe_run_steps: "(pipe_step api)\<^sup>*\<^sup>* s t \<Longrightarrow> answers api ans \<Longrightarrow> pipe_run ans s t"
  unfolding pipe_run_def by (erule rtranclp_mono [THEN predicate2D, rotated]) (blast intro: run_step.own)

lemma coherent_New [simp]: "coherent ans (NewCache d)"
  by (simp add: coherent_def NewCache_def)

theorem probes_complete_witness:
  "pipe_run (\<lambda>k p. k = 6031 \<and> p = sample_probe) (pipe_init [sample_hop_result] 1 (NewCache 10)) sample_run_end \<and>
   (\<exists>p q. p = sample_probe \<and> map_of [(6031, sample_probe)] (ID p) = Some q)"
proof -
  have run: "pipe_run (\<lambda>k p. k = 6031 \<and> p = sample_probe) (pipe_init [sample_hop_result] 1 (NewCache 10)) sample_run_end"
    by (rule pipe_run_steps [OF sample_run sample_answers])
  have r: "collect sample_run_end = Returned (Inr [(6031, sample_probe)])" by (simp add: sample_run_end_def)
  note c = probes_complete [OF coherent_New zero_less_one run r, THEN conjunct2, THEN conjunct1]
  show ?thesis using run bspec [OF c, of sample_hop_result] by auto
qed

text \<open>C26: one lookup asks the API at most once per probe, and only for probes of its results, whatever
  the interleaving and however many results share a probe.\<close>

theorem requests_once:
  assumes "coherent ans c" and "pipe_run ans (pipe_init res workers c) s"
  shows "distinct (requests s) \<and> set (requests s) \<subseteq> PrbId ` set res"
proof -
  note inv = pipe_run_ok [OF assms(2,1)]
  then have "mset (requests s) \<subseteq># mset (added s)" "distinct (added s)"
    unfolding asked_once_def held_def by (auto dest: mset_subset_eq_add_right [THEN subset_mset.order_trans])
  with inv show ?thesis
    using distinct_sub_mset mset_subset_eqD by (fastforce simp: pipe_ok_def)
qed

theorem requests_once_witness: "distinct (requests sample_run_end) \<and> set (requests sample_run_end) \<subseteq> {6031}"
proof -
  from requests_once [OF coherent_New pipe_run_steps [OF sample_run sample_answers]] show ?thesis
    by (simp add: sample_hop_result_def)
qed

text \<open>C7: the lookup always returns. Its goroutines cannot step forever, and as long as the collecting loop
  has not returned some goroutine can step: from every state, reachable or not, every maximal sequence of
  steps ends with a result or an error, even when the API changes its answers on the way.\<close>

theorem lookup_returns:
  "wfp (\<lambda>t s. \<exists>api. pipe_step api s t) \<and>
   (\<forall>s api. (\<forall>t. \<not> pipe_step api s t) \<longrightarrow> (\<exists>r. collect s = Returned r))"
proof
  show "wfp (\<lambda>t s. \<exists>api. pipe_step api s t)"
    by (rule wfp_if_convertible_to_nat [of _ pipe_work]) (blast dest: pipe_step_decreases)
  show "\<forall>s api. (\<forall>t. \<not> pipe_step api s t) \<longrightarrow> (\<exists>r. collect s = Returned r)"
    using pipe_progress by (metis collecting.exhaust)
qed

theorem lookup_returns_witness: "\<exists>t. pipe_step sample_api (pipe_init [sample_hop_result] 1 (NewCache 10)) t"
proof (rule ccontr)
  assume "\<not> ?thesis"
  with lookup_returns show False by (fastforce simp: pipe_init_def)
qed

lemma leak_step:
  assumes "pipe_step api s t" and "collect s = Returned r" and "consumer_at s i x"
    and "x = HasProbe p \<or> x = HasErr e" and "\<not> out_closed s"
  shows "consumer_at t i x \<and> \<not> out_closed t \<and> collect t = Returned r"
  using assms(1) by cases (use assms(2-5) in \<open>auto simp: nth_list_update list_all_length\<close>)

text \<open>C34: once the lookup has returned, a consumer that still holds a probe or an error blocks forever: it
  stays as it is in every continuation and the output channel is never closed. With two workers
  and an unreachable API the lookup fails and leaves such a goroutine behind.\<close>

theorem consumer_leak:
  assumes "collect s = Returned r" and "consumer_at s i x" and "x = HasProbe p \<or> x = HasErr e"
    and "\<not> out_closed s" and "pipe_run ans s t"
  shows "consumer_at t i x \<and> \<not> out_closed t \<and> collect t = Returned r"
  using assms(5) unfolding pipe_run_def
proof (induction rule: rtranclp_induct)
  case (step t u)
  from step.hyps(2) show ?case
  proof cases
    case (own api)
    with step.IH assms(3) show ?thesis by (blast dest: leak_step)
  next
    case env
    with step.IH show ?thesis by (auto dest: pipe_env_collect)
  qed
qed (use assms in blast)

definition broken_api :: probe_api where
  "broken_api = \<lparr>client_Get = (\<lambda>u. Inl ''no route''), Unmarshal = (\<lambda>bs. Inr sample_probe)\<rparr>"

lemma broken_probe_Get: "probe_Get broken_api k = Inl ''no route''"
  by (simp add: probe_Get_def broken_api_def)

lemma broken_answers: "answers broken_api ans"
  by (simp add: answers_def broken_probe_Get)

definition leak_end :: "Cache \<Rightarrow> pipe" where
  "leak_end c = pipe.make [] [2, 1] False [Idle, HasErr (lookup_error 2 ''no route'')] False
     (Returned (Inl (lookup_error 1 ''no route''))) c [2, 1]"

lemma leak_run:
  "(pipe_step broken_api)\<^sup>*\<^sup>*
     (pipe_init [zero_Result\<lparr>PrbId := 1\<rparr>, zero_Result\<lparr>PrbId := 2\<rparr>] 2 (NewCache 10)) (leak_end (NewCache 10))"
proof -
  let ?S = "pipe_step broken_api"
  let ?e = "lookup_error 1 ''no route''" and ?f = "lookup_error 2 ''no route''"
  define S where "S t a cs col rq = pipe.make t a False cs False col (NewCache 10) rq" for t a cs col rq
  note d = S_def pipe.defs broken_probe_Get
  have "?S (S [1, 2] [] [Idle, Idle] (Collecting []) []) (S [2] [1] [Got 1, Idle] (Collecting []) [])"
    using pipe_step.send [where s = "S [1, 2] [] [Idle, Idle] (Collecting []) []" and i = 0] by (simp add: d)
  moreover have "?S (S [2] [1] [Got 1, Idle] (Collecting []) []) (S [] [2, 1] [Got 1, Got 2] (Collecting []) [])"
    using pipe_step.send [where s = "S [2] [1] [Got 1, Idle] (Collecting []) []" and i = 1] by (simp add: d)
  moreover have "?S (S [] [2, 1] [Got 1, Got 2] (Collecting []) []) (S [] [2, 1] [Fetching 1, Got 2] (Collecting []) [])"
    using pipe_step.miss [where s = "S [] [2, 1] [Got 1, Got 2] (Collecting []) []" and i = 0 and now = 0] by (simp add: d)
  moreover have "?S (S [] [2, 1] [Fetching 1, Got 2] (Collecting []) [])
      (S [] [2, 1] [Fetching 1, Fetching 2] (Collecting []) [])"
    using pipe_step.miss [where s = "S [] [2, 1] [Fetching 1, Got 2] (Collecting []) []" and i = 1 and now = 0]
    by (simp add: d)
  moreover have "?S (S [] [2, 1] [Fetching 1, Fetching 2] (Collecting []) [])
      (S [] [2, 1] [HasErr ?e, Fetching 2] (Collecting []) [1])"
    using pipe_step.failed [where s = "S [] [2, 1] [Fetching 1, Fetching 2] (Collecting []) []" and i = 0]
    by (simp add: d)
  moreover have "?S (S [] [2, 1] [HasErr ?e, Fetching 2] (Collecting []) [1])
      (S [] [2, 1] [HasErr ?e, HasErr ?f] (Collecting []) [2, 1])"
    using pipe_step.failed [where s = "S [] [2, 1] [HasErr ?e, Fetching 2] (Collecting []) [1]" and i = 1]
    by (simp add: d)
  moreover have "?S (S [] [2, 1] [HasErr ?e, HasErr ?f] (Collecting []) [2, 1])
      (S [] [2, 1] [Idle, HasErr ?f] (Returned (Inl ?e)) [2, 1])"
    using pipe_step.report [where s = "S [] [2, 1] [HasErr ?e, HasErr ?f] (Collecting []) [2, 1]" and i = 0]
    by (simp add: d)
  moreover have "pipe_init [zero_Result\<lparr>PrbId := 1\<rparr>, zero_Result\<lparr>PrbId := 2\<rparr>] 2 (NewCache 10) =
      S [1, 2] [] [Idle, Idle] (Collecting []) []"
    by (simp add: d pipe_init_def numeral_2_eq_2)
  moreover have "leak_end (NewCache 10) = S [] [2, 1] [Idle, HasErr ?f] (Returned (Inl ?e)) [2, 1]"
    by (simp add: d leak_end_def)
  ultimately show ?thesis by (simp add: converse_rtranclp_into_rtranclp)
qed

theorem consumer_leak_witness:
  "pipe_run (\<lambda>k p. False)
     (pipe_init [zero_Result\<lparr>PrbId := 1\<rparr>, zero_Result\<lparr>PrbId := 2\<rparr>] 2 (NewCache 10)) (leak_end (NewCache 10)) \<and>
   (\<nexists>t. pipe_run (\<lambda>k p. False) (leak_end (NewCache 10)) t \<and>
     (out_closed t \<or> consumers t ! 1 = Finished))"
proof -
  have "consumer_at t 1 (HasErr (lookup_error 2 ''no route'')) \<and> \<not> out_closed t"
    if "pipe_run (\<lambda>k p. False) (leak_end (NewCache 10)) t" for t
    using consumer_leak [of "leak_end (NewCache 10)" _ 1 "HasErr (lookup_error 2 ''no route'')", OF _ _ _ _ that]
    by (simp add: leak_end_def pipe.defs)
  with pipe_run_steps [OF leak_run broken_answers] show ?thesis by auto
qed

lemma no_workers_run: "\<exists>s. pipe_run ans (pipe_init res 0 c) s \<and> collect s = Returned (Inr [])"
proof -
  let ?i = "pipe_init res 0 c"
  let ?o = "?i\<lparr>out_closed := True\<rparr>"
  have "pipe_step broken_api ?i ?o" by (rule pipe_step.close_out) (simp_all add: pipe_init_def)
  moreover have "pipe_step broken_api ?o (?o\<lparr>collect := Returned (Inr [])\<rparr>)"
    by (rule pipe_step.return) (simp_all add: pipe_init_def)
  ultimately have "(pipe_step broken_api)\<^sup>*\<^sup>* ?i (?o\<lparr>collect := Returned (Inr [])\<rparr>)" by simp
  then have "pipe_run ans ?i (?o\<lparr>collect := Returned (Inr [])\<rparr>)" by (rule pipe_run_steps) (rule broken_answers)
  then show ?thesis by (intro exI conjI) auto
qed

text \<open>A lookup that misses the cache and succeeds stores its answer: until the time to live of the answer
  has passed, later lookups of the probe return it without asking the API (whatever that would answer) and
  leave the cache alone. Before \<open>InitCache\<close> has run the lookup panics.\<close>

theorem probeForID_caches:
  assumes "Cache_Get now pid c = None" and "probe_Get api pid = Inr p" and "t < now' + ttl c"
  shows "\<exists>c'. probeForID api now now' pid (Some c) = Some (Inr p, Some c') \<and>
    (\<forall>api' t'. probeForID api' t t' pid (Some c') = Some (Inr p, Some c')) \<and>
    (\<forall>k u. k \<noteq> pid \<longrightarrow> Cache_Get u k c' = Cache_Get u k c) \<and>
    probeForID api now now' pid None = None"
  using assms by (intro exI [of _ "Cache_Add now' pid p c"]) (simp add: probeForID_def probe_cache.get_add)

theorem probeForID_caches_witness:
  "\<exists>c'. probeForID sample_api 0 1 6031 (InitCache 10) = Some (Inr sample_probe, Some c') \<and>
     probeForID broken_api 5 6 6031 (Some c') = Some (Inr sample_probe, Some c')"
  using probeForID_caches [of 0 6031 "NewCache 10" sample_api sample_probe 5 1]
  by (auto simp: sample_probe_Get InitCache_def)

lemma cleaner_loop_Get:
  assumes "Cache_wf c" and "\<forall>clock. Tick clock \<in> set es \<longrightarrow> clock k \<le> t"
  shows "Cache_Get t k (cleaner_loop es c) = Cache_Get t k c"
  using assms by (induction es c rule: cleaner_loop.induct) (auto simp: probe_cache.get_cleanup)

text \<open>The cache cleaner never changes what a lookup sees: after any ticks whose clock readings precede
  the lookup, and wherever the context ends the loop, every lookup answers as if the cleaner had not
  run. With a cleanup interval that is not positive the cleaner panics instead (and the
  configuration accepts such an interval).\<close>

theorem cleaner_unobservable:
  assumes "Cache_wf c" and "\<forall>clock. Tick clock \<in> set es \<longrightarrow> clock k \<le> t"
  shows "map_option (Cache_Get t k) (startCacheCleanupFunc d es c) =
    (if d \<le> 0 then None else Some (Cache_Get t k c))"
  using cleaner_loop_Get [OF assms] by (simp add: startCacheCleanupFunc_def)

theorem cleaner_unobservable_witness:
  "map_option (Cache_Get 7 6031) (startCacheCleanupFunc 300 [Tick (\<lambda>_. 6), CtxDone]
     (Cache_Add 0 6031 sample_probe (NewCache 10))) = Some (Some sample_probe)"
  using cleaner_unobservable [of "Cache_Add 0 6031 sample_probe (NewCache 10)" "[Tick (\<lambda>_. 6), CtxDone]" 6031 7 300]
  by (simp add: probe_cache.get_add)

end
