(* ===== verification/Request_Strategy.thy ===== *)
theory Request_Strategy
  imports Strategy Helper
begin

text \<open>
  \<open>atlas/request_strategy.go\<close>: one goroutine per requested measurement asks the API for the latest
  results and the probes, fills a measurement and sends it; \<open>MeasurementResults\<close> gathers what
  they send until all have ended or the context is done. The goroutines, each with the pipeline of its
  probe lookup, are one step relation over the shared cache.
\<close>

record requestStrategy =
  atlasser :: "string \<Rightarrow> Result option list res"
  workers :: "64 word"
  rs_cfg :: Config

text \<open>\<open>NewRequestStrategy\<close>; the client of the RIPE Atlas API is the parameter \<open>http\<close>: what the channel of
  \<open>MeasurementLatest\<close> yields until it is closed (a nil pointer is \<open>None\<close>).\<close>

definition NewRequestStrategy ::
    "(string \<Rightarrow> Result option list res) \<Rightarrow> Config \<Rightarrow> 64 word \<Rightarrow> requestStrategy" where
  "NewRequestStrategy http cfg n = \<lparr>atlasser = http, workers = n, rs_cfg = cfg\<rparr>"

section \<open>One measurement\<close>

text \<open>How the goroutine of one measurement ends: it sends the measurement, logs an error, finds no
  results, or recovers from a panic.\<close>

datatype fetch = Delivered Measurement | Logged error | NoResults | Recovered

text \<open>Reading the channel: the outer option is the panic on a nil result.\<close>

fun read_results :: "string \<Rightarrow> Result option list \<Rightarrow> Result list \<Rightarrow> Result list res option" where
  "read_results mid [] res = Some (Inr res)"
| "read_results mid (None # ms) res = None"
| "read_results mid (Some m # ms) res = (case ParseError m of
      Some err \<Rightarrow> Some (Inl (''failed parsing measurement result for '' @ mid @ '': '' @ err))
    | None \<Rightarrow> read_results mid ms (res @ [m]))"

text \<open>Up to the lookup of the probes: the goroutine ends, or has a new measurement and the results to add.\<close>

definition fetch_results :: "ext \<Rightarrow> requestStrategy \<Rightarrow> string \<Rightarrow> fetch + Measurement \<times> Result list" where
  "fetch_results e s mid =
     (case atlasser s mid of
        Inl err \<Rightarrow> Inl (Logged (''could not retrieve measurement results for '' @ mid @ '': '' @ err))
      | Inr ch \<Rightarrow> (case read_results mid ch [] of
          None \<Rightarrow> Inl Recovered
        | Some (Inl err) \<Rightarrow> Inl (Logged err)
        | Some (Inr []) \<Rightarrow> Inl NoResults
        | Some (Inr (first # rest)) \<Rightarrow>
            (case measurementForType e (Type_of first) mid (Itoa (Af first)) (rs_cfg s) of
               None \<Rightarrow> Inl Recovered
             | Some (Inl err) \<Rightarrow> Inl (Logged err)
             | Some (Inr mes) \<Rightarrow> Inr (mes, first # rest))))"

definition with_probes :: "(int, Probe) gomap \<Rightarrow> Result list \<Rightarrow> (Result \<times> Probe option) list" where
  "with_probes ps res = map (\<lambda>r. (r, map_of ps (PrbId r))) res"

text \<open>From the answer of \<open>probesForResults\<close> to the end.\<close>

definition fetch_end :: "Measurement \<Rightarrow> Result list \<Rightarrow> (int, Probe) gomap res \<Rightarrow> fetch" where
  "fetch_end mes res found =
     (case found of
        Inl err \<Rightarrow> Logged err
      | Inr ps \<Rightarrow> (case Measurement_add_all (with_probes ps res) mes of
          None \<Rightarrow> Recovered
        | Some mes' \<Rightarrow> Delivered mes'))"

text \<open>The whole goroutine; \<open>found\<close> is what \<open>probesForResults\<close> returns for the results.\<close>

definition getMeasurementForID ::
    "ext \<Rightarrow> (Result list \<Rightarrow> (int, Probe) gomap res) \<Rightarrow> requestStrategy \<Rightarrow> string \<Rightarrow> fetch" where
  "getMeasurementForID e found s mid =
     (case fetch_results e s mid of
        Inl f \<Rightarrow> f
      | Inr (mes, res) \<Rightarrow> fetch_end mes res (found res))"

definition request_IsHealthy :: "requestStrategy \<Rightarrow> bool" where
  "request_IsHealthy s = True"

section \<open>Gathering\<close>

text \<open>
  A fetcher is about to ask for the results of its measurement, waits for the pipeline of its probe lookup, blocks
  on its send, or has ended (\<open>wg.Done\<close> included; how it ended is kept for the proofs). The channel is
  closed when all have ended. \<open>expired\<close>: the context is done. \<open>leaks\<close>: what is left of the pipelines that
  have returned. \<open>scache\<close>: the shared cache. \<open>Crashed\<close>: a panic outside every recovery has ended the process.
\<close>

datatype fetcher = Asking string | LookingUp Measurement "Result list" pipe | Sending Measurement | Ended fetch

datatype gathering = Gathering "Measurement list" | Gathered "Measurement list res" | Crashed

record scrape =
  fetchers :: "fetcher list"
  ch_done :: bool
  expired :: bool
  gathered :: gathering
  leaks :: "pipe list"
  scache :: Cache

abbreviation fetcher_at :: "scrape \<Rightarrow> nat \<Rightarrow> fetcher \<Rightarrow> bool" where
  "fetcher_at s i x \<equiv> i < length (fetchers s) \<and> fetchers s ! i = x"

abbreviation set_fetcher :: "nat \<Rightarrow> fetcher \<Rightarrow> scrape \<Rightarrow> scrape" where
  "set_fetcher i x s \<equiv> s\<lparr>fetchers := (fetchers s)[i := x]\<rparr>"

definition scrape_init :: "string list \<Rightarrow> Cache \<Rightarrow> scrape" where
  "scrape_init ids c = \<lparr>fetchers = map Asking ids, ch_done = False, expired = False, gathered = Gathering [],
     leaks = [], scache = c\<rparr>"

fun fetched_state :: "fetch \<Rightarrow> fetcher" where
  "fetched_state (Delivered m) = Sending m"
| "fetched_state f = Ended f"

fun has_ended :: "fetcher \<Rightarrow> bool" where
  "has_ended (Ended f) = True"
| "has_ended _ = False"

inductive scrape_step :: "ext \<Rightarrow> error \<Rightarrow> (int \<Rightarrow> Probe \<Rightarrow> bool) \<Rightarrow> requestStrategy \<Rightarrow> scrape \<Rightarrow> scrape \<Rightarrow> bool"
  for e ctx_err ans q where
  ask_end: "fetcher_at s i (Asking mid) \<Longrightarrow> fetch_results e q mid = Inl f \<Longrightarrow>
    scrape_step e ctx_err ans q s (set_fetcher i (fetched_state f) s)"
| ask: "fetcher_at s i (Asking mid) \<Longrightarrow> fetch_results e q mid = Inr (mes, res) \<Longrightarrow>
    consumer_count (workers q) = Some n \<Longrightarrow>
    scrape_step e ctx_err ans q s (set_fetcher i (LookingUp mes res (pipe_init res n (scache s))) s)"
| crash: "fetcher_at s i (Asking mid) \<Longrightarrow> fetch_results e q mid = Inr (mes, res) \<Longrightarrow>
    consumer_count (workers q) = None \<Longrightarrow> gathered s \<noteq> Crashed \<Longrightarrow>
    scrape_step e ctx_err ans q s (s\<lparr>gathered := Crashed\<rparr>)"
| look: "fetcher_at s i (LookingUp mes res p) \<Longrightarrow> answers api ans \<Longrightarrow> pipe_step api (p\<lparr>pcache := scache s\<rparr>) p' \<Longrightarrow>
    scrape_step e ctx_err ans q s (set_fetcher i (LookingUp mes res p') (s\<lparr>scache := pcache p'\<rparr>))"
| looked: "fetcher_at s i (LookingUp mes res p) \<Longrightarrow> collect p = Returned r \<Longrightarrow>
    scrape_step e ctx_err ans q s (set_fetcher i (fetched_state (fetch_end mes res r)) (s\<lparr>leaks := leaks s @ [p]\<rparr>))"
| linger: "k < length (leaks s) \<Longrightarrow> answers api ans \<Longrightarrow> pipe_step api ((leaks s ! k)\<lparr>pcache := scache s\<rparr>) p' \<Longrightarrow>
    scrape_step e ctx_err ans q s (s\<lparr>leaks := (leaks s)[k := p'], scache := pcache p'\<rparr>)"
| receive: "fetcher_at s i (Sending m) \<Longrightarrow> gathered s = Gathering ms \<Longrightarrow>
    scrape_step e ctx_err ans q s (set_fetcher i (Ended (Delivered m)) (s\<lparr>gathered := Gathering (ms @ [m])\<rparr>))"
| close: "list_all has_ended (fetchers s) \<Longrightarrow> \<not> ch_done s \<Longrightarrow>
    scrape_step e ctx_err ans q s (s\<lparr>ch_done := True\<rparr>)"
| finish: "ch_done s \<Longrightarrow> gathered s = Gathering ms \<Longrightarrow>
    scrape_step e ctx_err ans q s (s\<lparr>gathered := Gathered (Inr ms)\<rparr>)"
| expire: "\<not> expired s \<Longrightarrow> scrape_step e ctx_err ans q s (s\<lparr>expired := True\<rparr>)"
| cancel: "expired s \<Longrightarrow> gathered s = Gathering ms \<Longrightarrow>
    scrape_step e ctx_err ans q s (s\<lparr>gathered := Gathered (Inl ctx_err)\<rparr>)"

text \<open>A scrape among others: between its steps the shared cache may change, but holds answers of the API only.\<close>

inductive scrape_run_step ::
    "ext \<Rightarrow> error \<Rightarrow> (int \<Rightarrow> Probe \<Rightarrow> bool) \<Rightarrow> requestStrategy \<Rightarrow> scrape \<Rightarrow> scrape \<Rightarrow> bool" for e ctx_err ans q where
  own: "scrape_step e ctx_err ans q s t \<Longrightarrow> scrape_run_step e ctx_err ans q s t"
| env: "coherent ans c \<Longrightarrow> scrape_run_step e ctx_err ans q s (s\<lparr>scache := c\<rparr>)"

abbreviation scrape_run :: "ext \<Rightarrow> error \<Rightarrow> (int \<Rightarrow> Probe \<Rightarrow> bool) \<Rightarrow> requestStrategy \<Rightarrow> scrape \<Rightarrow> scrape \<Rightarrow> bool" where
  "scrape_run e ctx_err ans q \<equiv> (scrape_run_step e ctx_err ans q)\<^sup>*\<^sup>*"

text \<open>The values \<open>MeasurementResults\<close> may return.\<close>

definition request_outcome ::
    "ext \<Rightarrow> error \<Rightarrow> (int \<Rightarrow> Probe \<Rightarrow> bool) \<Rightarrow> requestStrategy \<Rightarrow> string list \<Rightarrow> Measurement list res \<Rightarrow> bool" where
  "request_outcome e ctx_err ans q ids r \<longleftrightarrow>
     (\<exists>c t. coherent ans c \<and> scrape_run e ctx_err ans q (scrape_init ids c) t \<and> gathered t = Gathered r)"

section \<open>Lemmas\<close>

text \<open>How the goroutine of one measurement may end: its probe lookup is a run of the pipeline.\<close>

definition fetch_outcome :: "ext \<Rightarrow> (int \<Rightarrow> Probe \<Rightarrow> bool) \<Rightarrow> requestStrategy \<Rightarrow> string \<Rightarrow> fetch \<Rightarrow> bool" where
  "fetch_outcome e ans q mid f \<longleftrightarrow> (case fetch_results e q mid of
      Inl f' \<Rightarrow> f = f'
    | Inr (mes, res) \<Rightarrow> (\<exists>n c t r. consumer_count (workers q) = Some n \<and> coherent ans c \<and>
        pipe_run ans (pipe_init res n c) t \<and> collect t = Returned r \<and> f = fetch_end mes res r))"

lemma fetch_outcome_call:
  assumes "fetch_outcome e ans q mid f"
  obtains found where "f = getMeasurementForID e found q mid"
proof (cases "fetch_results e q mid")
  case (Inl f')
  then show ?thesis using assms that by (simp add: fetch_outcome_def getMeasurementForID_def)
next
  case (Inr x)
  then obtain r where "f = fetch_end (fst x) (snd x) r"
    using assms by (auto simp: fetch_outcome_def split: prod.splits)
  with Inr that [of "\<lambda>_. r"] show ?thesis by (simp add: getMeasurementForID_def case_prod_unfold)
qed

text \<open>The invariant of a scrape.\<close>

fun fetcher_ok :: "ext \<Rightarrow> (int \<Rightarrow> Probe \<Rightarrow> bool) \<Rightarrow> requestStrategy \<Rightarrow> string \<Rightarrow> fetcher \<Rightarrow> bool" where
  "fetcher_ok e ans q mid (Asking mid') \<longleftrightarrow> mid' = mid"
| "fetcher_ok e ans q mid (LookingUp mes res p) \<longleftrightarrow> fetch_results e q mid = Inr (mes, res) \<and>
     (\<exists>n c. consumer_count (workers q) = Some n \<and> coherent ans c \<and> pipe_run ans (pipe_init res n c) p)"
| "fetcher_ok e ans q mid (Sending m) \<longleftrightarrow> fetch_outcome e ans q mid (Delivered m)"
| "fetcher_ok e ans q mid (Ended f) \<longleftrightarrow> fetch_outcome e ans q mid f"

fun received :: "fetcher \<Rightarrow> Measurement multiset" where
  "received (Ended (Delivered m)) = {#m#}"
| "received _ = {#}"

definition scrape_ok :: "ext \<Rightarrow> error \<Rightarrow> (int \<Rightarrow> Probe \<Rightarrow> bool) \<Rightarrow> requestStrategy \<Rightarrow> string list \<Rightarrow> scrape \<Rightarrow> bool" where
  "scrape_ok e ctx_err ans q ids s \<longleftrightarrow>
     coherent ans (scache s) \<and> list_all2 (fetcher_ok e ans q) ids (fetchers s) \<and>
     (ch_done s \<longrightarrow> list_all has_ended (fetchers s)) \<and>
     (case gathered s of
        Gathering ms \<Rightarrow> mset ms = (\<Sum>x\<leftarrow>fetchers s. received x)
      | Gathered (Inr ms) \<Rightarrow> ch_done s \<and> mset ms = (\<Sum>x\<leftarrow>fetchers s. received x)
      | Gathered (Inl err) \<Rightarrow> expired s \<and> err = ctx_err
      | Crashed \<Rightarrow> consumer_count (workers q) = None)"

lemma fetched_ok: "fetch_outcome e ans q mid f \<Longrightarrow> fetcher_ok e ans q mid (fetched_state f)"
  by (cases f) simp_all

lemma received_fetched [simp]: "received (fetched_state f) = {#}"
  by (cases f) simp_all

lemma list_all2_update:
  "list_all2 R xs ys \<Longrightarrow> i < length ys \<Longrightarrow> R (xs ! i) y \<Longrightarrow> list_all2 R xs (ys[i := y])"
  by (auto simp: list_all2_conv_all_nth nth_list_update)

lemma scrape_ok_fetcher:
  assumes "scrape_ok e ctx_err ans q ids s" and "fetcher_at s i x" and "\<not> has_ended x"
    and "fetchers t = (fetchers s)[i := y]" and "fetcher_ok e ans q (ids ! i) y"
    and "coherent ans (scache t)" and "ch_done t = ch_done s" and "expired t = expired s"
    and "gathered t = gathered s \<and> received y = {#} \<or>
      (\<exists>ms m. gathered s = Gathering ms \<and> gathered t = Gathering (ms @ [m]) \<and> received y = {#m#})"
  shows "scrape_ok e ctx_err ans q ids t"
proof -
  have "\<not> ch_done s" using assms(1-3) by (auto simp: scrape_ok_def list_all_length)
  moreover have "received x = {#}" using assms(3) by (cases x) simp_all
  then have "(\<Sum>x\<leftarrow>fetchers t. received x) = (\<Sum>x\<leftarrow>fetchers s. received x) + received y"
    using sum_list_mset_update [of i "fetchers s" received y] assms(2,4) by simp
  moreover have "list_all2 (fetcher_ok e ans q) ids (fetchers t)"
    unfolding assms(4) by (rule list_all2_update) (use assms(1,2,5) in \<open>auto simp: scrape_ok_def\<close>)
  ultimately show ?thesis using assms(1,6-9)
    by (auto simp: scrape_ok_def split: gathering.splits sum.splits)
qed

lemma fetcher_ok_at:
  "scrape_ok e ctx_err ans q ids s \<Longrightarrow> fetcher_at s i x \<Longrightarrow> fetcher_ok e ans q (ids ! i) x"
  by (auto simp: scrape_ok_def list_all2_conv_all_nth)

lemma pipe_run_cache:
  assumes "pipe_run ans s p" and "coherent ans c" and "answers api ans" and "pipe_step api (p\<lparr>pcache := c\<rparr>) p'"
  shows "pipe_run ans s p'"
proof -
  have "run_step ans p (p\<lparr>pcache := c\<rparr>)" by (rule run_step.env) (rule env_step.interfere [OF assms(2)])
  moreover have "run_step ans (p\<lparr>pcache := c\<rparr>) p'" by (rule run_step.own [OF assms(3,4)])
  ultimately show ?thesis using assms(1) unfolding pipe_run_def by (meson rtranclp.rtrancl_into_rtrancl)
qed

lemma scrape_ok_step:
  assumes "scrape_step e ctx_err ans q s t" and "scrape_ok e ctx_err ans q ids s"
  shows "scrape_ok e ctx_err ans q ids t"
proof -
  have coh: "coherent ans (scache s)" using assms(2) by (simp add: scrape_ok_def)
  note at = fetcher_ok_at [OF assms(2)]
  from assms(1) show ?thesis
  proof cases
    case (ask_end i mid f)
    have "fetch_outcome e ans q mid f" using ask_end by (simp add: fetch_outcome_def)
    then show ?thesis using at [OF ask_end(2)] ask_end coh
      by (intro scrape_ok_fetcher [OF assms(2) ask_end(2), where y = "fetched_state f"]) (auto simp: fetched_ok)
  next
    case (ask i mid mes res n)
    have "pipe_run ans (pipe_init res n (scache s)) (pipe_init res n (scache s))" by (simp add: pipe_run_def)
    then show ?thesis using at [OF ask(2)] ask coh
      by (intro scrape_ok_fetcher [OF assms(2) ask(2), where y = "LookingUp mes res (pipe_init res n (scache s))"])
        (auto intro!: exI [of _ "scache s"])
  next
    case (look i mes res p api p')
    have "coherent ans (pcache p')" using pipe_step_coherent [OF look(4,3)] coh by simp
    moreover have "fetcher_ok e ans q (ids ! i) (LookingUp mes res p')"
      using at [OF look(2)] pipe_run_cache [OF _ coh look(3,4)] by auto
    ultimately show ?thesis using look
      by (intro scrape_ok_fetcher [OF assms(2) look(2), where y = "LookingUp mes res p'"]) auto
  next
    case (looked i mes res p r)
    have "fetch_outcome e ans q (ids ! i) (fetch_end mes res r)"
      using at [OF looked(2)] looked(3) by (auto simp: fetch_outcome_def)
    then show ?thesis using looked coh
      by (intro scrape_ok_fetcher [OF assms(2) looked(2), where y = "fetched_state (fetch_end mes res r)"])
        (auto simp: fetched_ok)
  next
    case (linger k api p')
    have "coherent ans (pcache p')" using pipe_step_coherent [OF linger(4,3)] coh by simp
    with linger assms(2) show ?thesis by (auto simp: scrape_ok_def split: gathering.splits sum.splits)
  next
    case (receive i m ms)
    then show ?thesis using at [OF receive(2)] coh
      by (intro scrape_ok_fetcher [OF assms(2) receive(2), where y = "Ended (Delivered m)"]) auto
  qed (use assms(2) in \<open>auto simp: scrape_ok_def split: gathering.splits sum.splits\<close>)
qed

lemma scrape_init_ok: "coherent ans c \<Longrightarrow> scrape_ok e ctx_err ans q ids (scrape_init ids c)"
  by (simp add: scrape_ok_def scrape_init_def list_all2_conv_all_nth sum_list_all_empty)

lemma scrape_run_ok:
  assumes "scrape_run e ctx_err ans q (scrape_init ids c) t" and "coherent ans c"
  shows "scrape_ok e ctx_err ans q ids t"
  using assms(1)
proof (induction rule: rtranclp_induct)
  case base
  show ?case by (rule scrape_init_ok [OF assms(2)])
next
  case (step s t)
  from step.hyps(2) show ?case
  proof cases
    case own
    then show ?thesis using step.IH by (rule scrape_ok_step)
  next
    case (env c)
    with step.IH show ?thesis by (auto simp: scrape_ok_def split: gathering.splits sum.splits)
  qed
qed

text \<open>A scrape that waits can go on without its context being done.\<close>

lemma scrape_advances:
  assumes "gathered s = Gathering ms"
  shows "\<exists>t. scrape_step e ctx_err ans q s t \<and> expired t = expired s \<and> (\<forall>err. gathered t \<noteq> Gathered (Inl err))"
proof (cases "list_all has_ended (fetchers s)")
  case True
  show ?thesis
  proof (cases "ch_done s")
    case True
    from scrape_step.finish [OF this assms] show ?thesis by force
  next
    case False
    from scrape_step.close [OF True False] assms show ?thesis by force
  qed
next
  case False
  then obtain i x where x: "fetcher_at s i x" "\<not> has_ended x" by (auto simp: list_all_length)
  show ?thesis
  proof (cases x)
    case (Asking mid)
    with x have at: "fetcher_at s i (Asking mid)" by simp
    show ?thesis
    proof (cases "fetch_results e q mid")
      case (Inl f)
      from scrape_step.ask_end [OF at this] assms show ?thesis by force
    next
      case (Inr y)
      then obtain mes res where y: "fetch_results e q mid = Inr (mes, res)" by (cases y) auto
      have "gathered s \<noteq> Crashed" using assms by simp
      then show ?thesis using scrape_step.ask [OF at y] scrape_step.crash [OF at y] assms
        by (cases "consumer_count (workers q)") force+
    qed
  next
    case (LookingUp mes res p)
    with x have at: "fetcher_at s i (LookingUp mes res p)" by simp
    show ?thesis
    proof (cases "collect p")
      case (Collecting ps)
      then obtain p' where "pipe_step broken_api (p\<lparr>pcache := scache s\<rparr>) p'"
        using pipe_progress [of "p\<lparr>pcache := scache s\<rparr>" ps broken_api] by auto
      from scrape_step.look [OF at broken_answers this] assms show ?thesis by force
    next
      case (Returned r)
      from scrape_step.looked [OF at this] assms show ?thesis by force
    qed
  next
    case (Sending m)
    with x have "fetcher_at s i (Sending m)" by simp
    from scrape_step.receive [OF this assms] show ?thesis by force
  qed (use x in simp)
qed

lemma scrape_progress: "gathered s = Gathering ms \<Longrightarrow> \<exists>t. scrape_step e ctx_err ans q s t"
  using scrape_advances by blast

fun fetcher_work :: "ext \<Rightarrow> requestStrategy \<Rightarrow> fetcher \<Rightarrow> nat" where
  "fetcher_work e q (Asking mid) = (case fetch_results e q mid of
      Inl f \<Rightarrow> 2
    | Inr (mes, res) \<Rightarrow> 8 * length res + (case consumer_count (workers q) of Some n \<Rightarrow> n | None \<Rightarrow> 0) + 6)"
| "fetcher_work e q (LookingUp mes res p) = pipe_work p + 2"
| "fetcher_work e q (Sending m) = 1"
| "fetcher_work e q (Ended f) = 0"

definition scrape_work :: "ext \<Rightarrow> requestStrategy \<Rightarrow> scrape \<Rightarrow> nat" where
  "scrape_work e q s = sum_list (map (fetcher_work e q) (fetchers s)) + sum_list (map pipe_work (leaks s)) +
     (if ch_done s then 0 else 1) + (if expired s then 0 else 1) +
     (case gathered s of Gathering _ \<Rightarrow> 2 | Gathered _ \<Rightarrow> 1 | Crashed \<Rightarrow> 0)"

lemma fetcher_work_update:
  assumes "fetcher_at s i x"
  shows "sum_list (map (fetcher_work e q) ((fetchers s)[i := y])) + fetcher_work e q x =
    sum_list (map (fetcher_work e q) (fetchers s)) + fetcher_work e q y"
proof -
  have "fetcher_work e q x \<le> sum_list (map (fetcher_work e q) (fetchers s))"
    using elem_le_sum_list [of i "map (fetcher_work e q) (fetchers s)"] assms by auto
  with assms show ?thesis by (simp add: sum_list_update_nat)
qed

lemma pipe_work_cache [simp]: "pipe_work (p\<lparr>pcache := c\<rparr>) = pipe_work p"
  by (simp add: pipe_work_def)

lemma pipe_work_init: "pipe_work (pipe_init res n c) = 8 * length res + n + 3"
  by (simp add: pipe_work_def pipe_init_def sum_list_replicate)

lemma fetched_work: "fetcher_work e q (fetched_state f) \<le> 1"
  by (cases f) simp_all

lemma scrape_step_decreases:
  assumes "scrape_step e ctx_err ans q s t" shows "scrape_work e q t < scrape_work e q s"
  using assms
proof cases
  case (ask_end i mid f)
  then show ?thesis using fetcher_work_update [OF ask_end(2), of e q "fetched_state f"] fetched_work [of e q f]
    by (simp add: scrape_work_def)
next
  case (ask i mid mes res n)
  then show ?thesis
    using fetcher_work_update [OF ask(2), of e q "LookingUp mes res (pipe_init res n (scache s))"]
    by (simp add: scrape_work_def pipe_work_init)
next
  case (look i mes res p api p')
  then show ?thesis
    using fetcher_work_update [OF look(2), of e q "LookingUp mes res p'"] pipe_step_decreases [OF look(4)]
    by (simp add: scrape_work_def)
next
  case (looked i mes res p r)
  then show ?thesis
    using fetcher_work_update [OF looked(2), of e q "fetched_state (fetch_end mes res r)"]
      fetched_work [of e q "fetch_end mes res r"] by (simp add: scrape_work_def)
next
  case (linger k api p')
  have "pipe_work p' < pipe_work (leaks s ! k)" using pipe_step_decreases [OF linger(4)] by simp
  moreover have "pipe_work (leaks s ! k) \<le> sum_list (map pipe_work (leaks s))"
    using elem_le_sum_list [of k "map pipe_work (leaks s)"] linger(2) by simp
  ultimately show ?thesis using linger by (simp add: scrape_work_def sum_list_update_nat)
next
  case (receive i m ms)
  then show ?thesis using fetcher_work_update [OF receive(2), of e q "Ended (Delivered m)"]
    by (simp add: scrape_work_def)
next
  case (crash i mid mes res)
  then show ?thesis by (cases "gathered s") (simp_all add: scrape_work_def)
qed (auto simp: scrape_work_def)

subsection \<open>What is delivered\<close>

lemma fetch_results_Inr:
  assumes "fetch_results e s mid = Inr (mes, res)"
  obtains ch first rest where "atlasser s mid = Inr ch" and "res = first # rest"
    and "read_results mid ch [] = Some (Inr res)"
    and "measurementForType e (Type_of first) mid (Itoa (Af first)) (rs_cfg s) = Some (Inr mes)"
  using assms by (auto simp: fetch_results_def split: sum.splits option.splits list.splits)

lemma fetch_end_Delivered:
  assumes "fetch_end mes res r = Delivered m"
  obtains ps where "r = Inr ps" and "Measurement_add_all (with_probes ps res) mes = Some m"
  using assms by (auto simp: fetch_end_def split: sum.splits option.splits)

lemma fetch_results_not_Delivered: "fetch_results e s mid \<noteq> Inl (Delivered m)"
  by (auto simp: fetch_results_def split: sum.splits option.splits list.splits)

lemma fetch_outcome_Delivered:
  assumes "fetch_outcome e ans q mid (Delivered m)"
  obtains first rest mes n c t ps where
      "measurementForType e (Type_of first) mid (Itoa (Af first)) (rs_cfg q) = Some (Inr mes)"
    and "fetch_results e q mid = Inr (mes, first # rest)"
    and "consumer_count (workers q) = Some n" and "coherent ans c" and "pipe_run ans (pipe_init (first # rest) n c) t"
    and "collect t = Returned (Inr ps)" and "Measurement_add_all (with_probes ps (first # rest)) mes = Some m"
proof (cases "fetch_results e q mid")
  case (Inl f)
  then show ?thesis using assms fetch_results_not_Delivered [of e q mid m] by (simp add: fetch_outcome_def)
next
  case (Inr x)
  then obtain mes res where x: "fetch_results e q mid = Inr (mes, res)" by (cases x) auto
  then obtain first rest where res: "res = first # rest"
    and t: "measurementForType e (Type_of first) mid (Itoa (Af first)) (rs_cfg q) = Some (Inr mes)"
    by (rule fetch_results_Inr) blast
  from assms x obtain n c t r where "consumer_count (workers q) = Some n" "coherent ans c"
    "pipe_run ans (pipe_init res n c) t" "collect t = Returned r" and d: "fetch_end mes res r = Delivered m"
    by (auto simp: fetch_outcome_def)
  with that x res t show ?thesis using fetch_end_Delivered [OF d] by metis
qed

lemma probes_of_run:
  assumes "pipe_run ans (pipe_init res n c) t" and "coherent ans c" and "collect t = Returned (Inr ps)"
    and "map_of ps k = Some p"
  shows "ID p = k \<and> (\<exists>j. ans j p)"
proof -
  have "probes_ok ans (PrbId ` set res) ps" using pipe_run_ok [OF assms(1,2)] assms(3) by (simp add: pipe_ok_def)
  with assms(4) show ?thesis unfolding probes_ok_def by blast
qed

lemma last_accepted_mem: "last_accepted v ms k = Some (r, p) \<Longrightarrow> (r, p) \<in> set ms \<and> PrbId r = k"
  by (induction v ms k rule: last_accepted.induct) (auto split: option.splits if_splits)

lemma Delivered_fields:
  assumes "fetch_outcome e ans q mid (Delivered m)"
  shows "measurement_id m = mid" and "Measurement_wf m" and "own_histogram m"
    and "FilterInvalidResults (rs_cfg q) \<Longrightarrow> validator m \<noteq> None"
    and "probes_from (\<lambda>k p. ID p = k \<and> (\<exists>j. ans j p)) m"
proof -
  obtain first rest mes n c t ps where
      mt: "measurementForType e (Type_of first) mid (Itoa (Af first)) (rs_cfg q) = Some (Inr mes)"
    and c: "coherent ans c" and run: "pipe_run ans (pipe_init (first # rest) n c) t"
    and r: "collect t = Returned (Inr ps)"
    and a: "Measurement_add_all (with_probes ps (first # rest)) mes = Some m"
    using assms by (rule fetch_outcome_Delivered)
  note h = add_all_history [OF a, THEN conjunct2, THEN conjunct2, THEN conjunct2]
  show "measurement_id m = mid" using h measurementForType_id [OF mt] by simp
  show "Measurement_wf m" using h measurementForType_wf [OF mt] by simp
  show "own_histogram m" by (rule own_histogram_add_all [OF measurementForType_histogram [OF mt] a])
  show "validator m \<noteq> None" if "FilterInvalidResults (rs_cfg q)"
    using h measurementForType_cases [OF mt] that by simp
  show "probes_from (\<lambda>k p. ID p = k \<and> (\<exists>j. ans j p)) m" unfolding probes_from_def
  proof (intro allI impI)
    fix k pr assume "map_of (probes m) k = Some (Some pr)"
    then obtain r where l: "last_accepted (validator mes) (with_probes ps (first # rest)) k = Some (r, Some pr)"
      using add_all_history [OF a, of k] measurementForType_cases [OF mt] by (auto split: option.splits)
    have "map_of ps k = Some pr" using last_accepted_mem [OF l] by (auto simp: with_probes_def)
    then show "ID pr = k \<and> (\<exists>j. ans j pr)" by (rule probes_of_run [OF run c r])
  qed
qed

fun delivered :: "fetch \<Rightarrow> Measurement option" where
  "delivered (Delivered m) = Some m"
| "delivered _ = None"

fun outcome_of :: "fetcher \<Rightarrow> fetch" where
  "outcome_of (Ended f) = f"
| "outcome_of _ = NoResults"

lemma received_outcomes:
  "list_all has_ended xs \<Longrightarrow> (\<Sum>x\<leftarrow>xs. received x) = mset (List.map_filter delivered (map outcome_of xs))"
proof (induction xs)
  case (Cons x xs)
  from Cons.prems obtain f where "x = Ended f" by (cases x) simp_all
  with Cons show ?case by (cases f) (simp_all add: List.map_filter_simps)
qed (simp add: List.map_filter_simps)

lemma scrape_ok_gathered:
  assumes "scrape_ok e ctx_err ans q ids t" and "gathered t = Gathered r"
  shows "case r of
      Inr ms \<Rightarrow> \<exists>fs. list_all2 (fetch_outcome e ans q) ids fs \<and> mset ms = mset (List.map_filter delivered fs)
    | Inl err \<Rightarrow> err = ctx_err"
proof (cases r)
  case (Inr ms)
  with assms have e: "list_all has_ended (fetchers t)" and ms: "mset ms = (\<Sum>x\<leftarrow>fetchers t. received x)"
    and l: "list_all2 (fetcher_ok e ans q) ids (fetchers t)" by (auto simp: scrape_ok_def)
  have "list_all2 (fetch_outcome e ans q) ids (map outcome_of (fetchers t))"
    unfolding list_all2_conv_all_nth
  proof (intro conjI allI impI)
    show "length ids = length (map outcome_of (fetchers t))" using l by (simp add: list_all2_lengthD)
    fix i assume "i < length ids"
    with l have i: "i < length (fetchers t)" "fetcher_ok e ans q (ids ! i) (fetchers t ! i)"
      by (auto simp: list_all2_conv_all_nth)
    with e show "fetch_outcome e ans q (ids ! i) (map outcome_of (fetchers t) ! i)"
      by (cases "fetchers t ! i") (auto simp: list_all_length)
  qed
  with Inr ms received_outcomes [OF e] show ?thesis by auto
next
  case (Inl err)
  with assms show ?thesis by (simp add: scrape_ok_def)
qed

lemma request_outcome_cases:
  assumes "request_outcome e ctx_err ans q ids r"
  shows "case r of
      Inr ms \<Rightarrow> \<exists>fs. list_all2 (fetch_outcome e ans q) ids fs \<and> mset ms = mset (List.map_filter delivered fs)
    | Inl err \<Rightarrow> err = ctx_err"
proof -
  obtain c t where "coherent ans c" "scrape_run e ctx_err ans q (scrape_init ids c) t" "gathered t = Gathered r"
    using assms unfolding request_outcome_def by blast
  then show ?thesis using scrape_ok_gathered scrape_run_ok by blast
qed

lemma delivered_ids:
  "list_all2 (fetch_outcome e ans q) ids fs \<Longrightarrow>
     mset (map measurement_id (List.map_filter delivered fs)) \<subseteq># mset ids"
proof (induction ids fs rule: list_all2_induct)
  case (Cons mid ids f fs)
  then show ?case
    by (cases f) (auto simp: List.map_filter_simps Delivered_fields(1) intro: subset_mset.order_trans)
qed (simp add: List.map_filter_simps)

lemma request_outcome_mem:
  assumes "request_outcome e ctx_err ans q ids (Inr ms)" and "m \<in> set ms"
  obtains mid where "mid \<in> set ids" and "fetch_outcome e ans q mid (Delivered m)"
proof -
  from request_outcome_cases [OF assms(1)] obtain fs where fs: "list_all2 (fetch_outcome e ans q) ids fs"
    and ms: "mset ms = mset (List.map_filter delivered fs)" by auto
  have "m \<in> set (List.map_filter delivered fs)" using mset_eq_setD [OF ms] assms(2) by simp
  then obtain f where f: "f \<in> set fs" "delivered f = Some m" by (auto simp: set_map_filter_Some)
  from f(2) have "f = Delivered m" by (cases f) simp_all
  with f(1) obtain i where i: "i < length fs" "fs ! i = Delivered m" by (auto simp: in_set_conv_nth)
  then have "fetch_outcome e ans q (ids ! i) (Delivered m)" using list_all2_nthD2 [OF fs i(1)] by simp
  moreover have "ids ! i \<in> set ids" using i(1) list_all2_lengthD [OF fs] by simp
  ultimately show thesis using that by blast
qed

text \<open>A measurement of the request strategy is not shared: it is collected as it was returned.\<close>

interpretation request: strategy "request_outcome e ctx_err ans" "\<lambda>q. (=)" "\<lambda>q. FilterInvalidResults (rs_cfg q)"
    "\<lambda>k p. ID p = k \<and> (\<exists>j. ans j p)"
  for e ctx_err ans
proof
  fix q ids ms m m' assume o: "request_outcome e ctx_err ans q ids (Inr ms)" "m \<in> set ms" "m = m'"
  from o(1,2) obtain mid where "fetch_outcome e ans q mid (Delivered m)" by (rule request_outcome_mem)
  from Delivered_fields [OF this] o(3)
  show "served_ok (\<lambda>k p. ID p = k \<and> (\<exists>j. ans j p)) (FilterInvalidResults (rs_cfg q)) m'"
    by (simp add: served_ok_def)
next
  fix q ids ms assume "request_outcome e ctx_err ans q ids (Inr ms)"
  from request_outcome_cases [OF this] obtain fs where fs: "list_all2 (fetch_outcome e ans q) ids fs"
    and ms: "mset ms = mset (List.map_filter delivered fs)" by auto
  have "mset (map measurement_id ms) = mset (map measurement_id (List.map_filter delivered fs))"
    using ms by simp
  with delivered_ids [OF fs] show "mset (map measurement_id ms) \<subseteq># mset ids" by simp
qed simp_all

lemma read_results_ok:
  "list_all (\<lambda>r. ParseError r = None) ms \<Longrightarrow> read_results mid (map Some ms) res = Some (Inr (res @ ms))"
  by (induction ms arbitrary: res) auto

lemma fetch_complete:
  assumes "\<And>o'. strictly_increasing (Buckets o') \<Longrightarrow> hist_ok e o'" and "buckets_increasing (rs_cfg s)"
    and "atlasser s mid = Inr (map Some (first # rest))"
    and "list_all (\<lambda>r. ParseError r = None) (first # rest)"
    and "exporter_for (Type_of first) mid (rs_cfg s) = Some x"
    and "coherent ans c" and "\<And>k p. ans k p \<Longrightarrow> ID p = k" and "consumer_count (workers s) = Some n" and "0 < n"
    and "pipe_run ans (pipe_init (first # rest) n c) t" and "collect t = Returned (Inr ps)"
    and "found (first # rest) = Inr ps"
  shows "(\<forall>r \<in> set (first # rest). \<exists>p. map_of ps (PrbId r) = Some p) \<and>
    (\<exists>m. getMeasurementForID e found s mid = Delivered m \<and> fetch_outcome e ans s mid (Delivered m) \<and> exporter m = x \<and>
       (\<forall>k. map_of (latest m) k =
          map_option fst (last_accepted (validator m) (with_probes ps (first # rest)) k)))"
proof -
  let ?res = "first # rest"
  from lookup_complete [OF assms(6,9-11)] assms(7) have "dom (map_of ps) = PrbId ` set ?res" by blast
  then have probes: "\<exists>p. map_of ps (PrbId r) = Some p" if "r \<in> set ?res" for r
    using that by (metis domD image_eqI)
  from measurementForType_supported [OF assms(1,2), where mid = mid and t = "Type_of first" and ipVersion = "Itoa (Af first)"] assms(5)
  obtain mes where mes: "measurementForType e (Type_of first) mid (Itoa (Af first)) (rs_cfg s) = Some (Inr mes)"
    and x: "exporter mes = x" by (auto simp del: exporter_for.simps)
  have "None \<notin> snd ` set (with_probes ps ?res)" using probes by (force simp: with_probes_def)
  then obtain m where m: "Measurement_add_all (with_probes ps ?res) mes = Some m"
    using add_all_None_iff [of "with_probes ps ?res" mes] by auto
  have res: "fetch_results e s mid = Inr (mes, ?res)"
    using assms(3) read_results_ok [OF assms(4), of mid "[]"] mes by (simp add: fetch_results_def)
  have fin: "fetch_end mes ?res (Inr ps) = Delivered m" using m by (simp add: fetch_end_def)
  have "getMeasurementForID e found s mid = Delivered m" using res fin assms(12) by (simp add: getMeasurementForID_def)
  moreover have "fetch_outcome e ans s mid (Delivered m)"
    unfolding fetch_outcome_def res fin [symmetric] using assms(6,8,10,11) by auto
  moreover have "exporter m = x \<and> (\<forall>k. map_of (latest m) k =
      map_option fst (last_accepted (validator m) (with_probes ps ?res) k))"
    using add_all_history [OF m] measurementForType_cases [OF mes] x by (auto split: option.splits)
  ultimately show ?thesis using probes by blast
qed

section \<open>Properties\<close>

text \<open>C10: in every interleaving of the goroutines of a scrape, of their probe lookups and of other users of the
  cache, \<open>MeasurementResults\<close> either returns the error of the context, or each requested id has been
  fetched once, with a probe lookup that is a run of the pipeline, and exactly what was delivered is
  returned, in the order of arrival: fetches that failed, were empty or panicked do not affect the others.\<close>

theorem request_results_exact:
  assumes "request_outcome e ctx_err ans q ids r"
  shows "case r of
      Inr ms \<Rightarrow> \<exists>fs. list_all2 (fetch_outcome e ans q) ids fs \<and> mset ms = mset (List.map_filter delivered fs)
    | Inl err \<Rightarrow> err = ctx_err"
  by (rule request_outcome_cases [OF assms])

text \<open>C11: \<open>MeasurementResults\<close> of the request strategy always returns: its goroutines, those of the probe lookups
  and those the lookups leave behind included, cannot step forever, and there is no state in which it waits and
  nothing can happen. (It can crash only when the number of workers is negative as an \<open>int\<close>.)\<close>

theorem request_results_returns:
  "wfp (\<lambda>t s. scrape_step e ctx_err ans q s t) \<and>
   (\<forall>s. (\<forall>t. \<not> scrape_step e ctx_err ans q s t) \<longrightarrow> (\<exists>r. gathered s = Gathered r) \<or> gathered s = Crashed) \<and>
   (\<forall>ids c s. coherent ans c \<longrightarrow> scrape_run e ctx_err ans q (scrape_init ids c) s \<longrightarrow> gathered s = Crashed \<longrightarrow>
      sint (workers q) < 0)"
proof (intro conjI allI impI)
  show "wfp (\<lambda>t s. scrape_step e ctx_err ans q s t)"
    by (rule wfp_if_convertible_to_nat [of _ "scrape_work e q"]) (rule scrape_step_decreases)
next
  fix s assume "\<forall>t. \<not> scrape_step e ctx_err ans q s t"
  then show "(\<exists>r. gathered s = Gathered r) \<or> gathered s = Crashed"
    using scrape_progress by (cases "gathered s") blast+
next
  fix ids c s assume "coherent ans c" and "scrape_run e ctx_err ans q (scrape_init ids c) s" and "gathered s = Crashed"
  then have "consumer_count (workers q) = None" using scrape_run_ok by (force simp: scrape_ok_def)
  then show "sint (workers q) < 0" by (simp add: consumer_count_def split: if_splits)
qed

text \<open>C4: from the API to a measurement. When the API's channel holds results without parse errors, of a
  supported type, the buckets are strictly increasing, and the probe lookup (with at least one
  worker, and answers that carry the id asked for) succeeds, then the measurement is delivered: with
  the exporter of the type of the first result, a probe for every result, and for every probe the last
  result the validator accepted.\<close>

theorem getMeasurementForID_complete:
  assumes "\<And>o'. strictly_increasing (Buckets o') \<Longrightarrow> hist_ok e o'" and "buckets_increasing (rs_cfg s)"
    and "atlasser s mid = Inr (map Some (first # rest))"
    and "list_all (\<lambda>r. ParseError r = None) (first # rest)"
    and "exporter_for (Type_of first) mid (rs_cfg s) = Some x"
    and "coherent ans c" and "\<And>k p. ans k p \<Longrightarrow> ID p = k" and "consumer_count (workers s) = Some n" and "0 < n"
    and "pipe_run ans (pipe_init (first # rest) n c) t" and "collect t = Returned (Inr ps)"
    and "found (first # rest) = Inr ps"
  shows "(\<forall>r \<in> set (first # rest). \<exists>p. map_of ps (PrbId r) = Some p) \<and>
    (\<exists>m. getMeasurementForID e found s mid = Delivered m \<and> fetch_outcome e ans s mid (Delivered m) \<and> exporter m = x \<and>
       (\<forall>k. map_of (latest m) k =
          map_option fst (last_accepted (validator m) (with_probes ps (first # rest)) k)))"
  by (rule fetch_complete [where found = found, OF assms])

abbreviation one_worker :: Config where
  "one_worker \<equiv> ok_cfg\<lparr>Worker_Count := 1, Cache_TTL := 10\<rparr>"

definition sample_strategy :: requestStrategy where
  "sample_strategy = NewRequestStrategy (\<lambda>mid. Inr [Some sample_result]) one_worker (Worker_Count one_worker)"

lemma buckets_one_worker: "buckets_increasing one_worker"
  using buckets_ok_cfg by (simp add: buckets_increasing_def)

abbreviation sample_ans :: "int \<Rightarrow> Probe \<Rightarrow> bool" where
  "sample_ans k p \<equiv> k = 6031 \<and> p = sample_probe"

lemma sample_count: "consumer_count 1 = Some 1"
  by (simp add: consumer_count_def)

lemma sample_steps: "(pipe_step sample_api)\<^sup>*\<^sup>* (pipe_init [sample_result] 1 (NewCache 10)) sample_run_end"
  using sample_run by (simp add: pipe_init_def sample_hop_result_def sample_result_def)

lemma sample_pipe_run: "pipe_run sample_ans (pipe_init [sample_result] 1 (NewCache 10)) sample_run_end"
  by (rule pipe_run_steps [OF sample_steps sample_answers])

lemma sample_fetch_results:
  "\<exists>mes. fetch_results sample_ext sample_strategy ''1001'' = Inr (mes, [sample_result]) \<and>
     (\<exists>m. fetch_end mes [sample_result] (Inr [(6031, sample_probe)]) = Delivered m)"
proof -
  note d = sample_strategy_def NewRequestStrategy_def sample_result_def zero_Result_def
  from measurementForType_supported [OF sample_hist_ok buckets_one_worker, where mid = "''1001''" and t = "''ping''" and ipVersion = "Itoa (Af sample_result)"]
  obtain mes where mes: "measurementForType sample_ext ''ping'' ''1001'' (Itoa (Af sample_result)) one_worker = Some (Inr mes)"
    by auto
  have "Type_of sample_result = ''ping''" and n: "ParseError sample_result = None" by (simp_all add: d)
  then have "fetch_results sample_ext sample_strategy ''1001'' = Inr (mes, [sample_result])"
    using mes by (simp add: fetch_results_def sample_strategy_def NewRequestStrategy_def)
  moreover have "Measurement_add_all (with_probes [(6031, sample_probe)] [sample_result]) mes \<noteq> None"
    unfolding add_all_None_iff by (simp add: with_probes_def d)
  ultimately show ?thesis by (auto simp: fetch_end_def)
qed

theorem getMeasurementForID_complete_witness:
  "\<exists>m. getMeasurementForID sample_ext (\<lambda>_. Inr [(6031, sample_probe)]) sample_strategy ''1001'' = Delivered m \<and>
     exporter m = pingExporter ''1001''"
proof -
  have r: "collect sample_run_end = Returned (Inr [(6031, sample_probe)])" by (simp add: sample_run_end_def)
  note d = sample_strategy_def NewRequestStrategy_def sample_result_def zero_Result_def
  have "(\<forall>r \<in> set [sample_result]. \<exists>p. map_of [(6031, sample_probe)] (PrbId r) = Some p) \<and>
    (\<exists>m. getMeasurementForID sample_ext (\<lambda>_. Inr [(6031, sample_probe)]) sample_strategy ''1001'' = Delivered m \<and>
       fetch_outcome sample_ext sample_ans sample_strategy ''1001'' (Delivered m) \<and>
       exporter m = pingExporter ''1001'' \<and>
       (\<forall>k. map_of (latest m) k =
          map_option fst (last_accepted (validator m) (with_probes [(6031, sample_probe)] [sample_result]) k)))"
    by (rule getMeasurementForID_complete [OF sample_hist_ok _ _ _ _ coherent_New _ _ zero_less_one sample_pipe_run r])
      (use buckets_one_worker sample_probe_ID sample_count in \<open>simp_all add: d\<close>)
  then show ?thesis by blast
qed

subsection \<open>Every delivery can be gathered\<close>

text \<open>A run of the pipeline as a run of a scrape with one fetcher.\<close>

lemma pipe_run_lift:
  assumes "pipe_run ans p p'"
  shows "\<exists>p0. p0\<lparr>pcache := pcache p'\<rparr> = p' \<and>
    scrape_run e ctx_err ans q (scrape.make [LookingUp mes res p] False False (Gathering []) [] (pcache p))
      (scrape.make [LookingUp mes res p0] False False (Gathering []) [] (pcache p'))"
  using assms unfolding pipe_run_def
proof (induction rule: rtranclp_induct)
  case base
  show ?case by (rule exI [of _ p]) simp
next
  case (step u v)
  then obtain p0 where p0: "p0\<lparr>pcache := pcache u\<rparr> = u" and
    run: "scrape_run e ctx_err ans q (scrape.make [LookingUp mes res p] False False (Gathering []) [] (pcache p))
      (scrape.make [LookingUp mes res p0] False False (Gathering []) [] (pcache u))" by blast
  let ?s = "scrape.make [LookingUp mes res p0] False False (Gathering []) [] (pcache u)"
  from step.hyps(2) show ?case
  proof cases
    case (own api)
    have "scrape_step e ctx_err ans q ?s (scrape.make [LookingUp mes res v] False False (Gathering []) [] (pcache v))"
      using scrape_step.look [where s = ?s and i = 0 and mes = mes and res = res and p = p0 and api = api and ans = ans and p' = v] own p0 by (simp add: scrape.defs)
    with run show ?thesis
      by (intro exI [of _ v]) (auto intro: rtranclp.rtrancl_into_rtrancl scrape_run_step.own)
  next
    case env
    then obtain c where c: "coherent ans c" "v = u\<lparr>pcache := c\<rparr>" by (auto simp: env_step_iff)
    have "scrape_run_step e ctx_err ans q ?s (scrape.make [LookingUp mes res p0] False False (Gathering []) [] (pcache v))"
      using scrape_run_step.env [OF c(1), of e ctx_err q ?s] c(2) by (simp add: scrape.defs)
    moreover have "p0\<lparr>pcache := pcache v\<rparr> = v" using p0 c(2) by (cases p0, cases u) simp
    ultimately show ?thesis using run by (meson rtranclp.rtrancl_into_rtrancl)
  qed
qed

lemma fetch_run:
  assumes "fetch_outcome e ans q mid f"
  shows "\<exists>c c' ls. coherent ans c \<and> scrape_run e ctx_err ans q (scrape_init [mid] c)
    (scrape.make [fetched_state f] False False (Gathering []) ls c')"
proof (cases "fetch_results e q mid")
  case (Inl f')
  with assms have "scrape_step e ctx_err ans q (scrape_init [mid] (NewCache 0))
      (scrape.make [fetched_state f] False False (Gathering []) [] (NewCache 0))"
    using scrape_step.ask_end [where s = "scrape_init [mid] (NewCache 0)" and i = 0 and mid = mid and f = f]
    by (simp add: fetch_outcome_def scrape_init_def scrape.defs)
  then show ?thesis using coherent_New scrape_run_step.own by blast
next
  case (Inr x)
  then obtain mes res where x: "fetch_results e q mid = Inr (mes, res)" by (cases x) auto
  with assms obtain n c t r where n: "consumer_count (workers q) = Some n" and c: "coherent ans c"
    and run: "pipe_run ans (pipe_init res n c) t" and r: "collect t = Returned r" and f: "f = fetch_end mes res r"
    by (auto simp: fetch_outcome_def)
  let ?S = "scrape_step e ctx_err ans q" and ?p = "pipe_init res n c"
  obtain p0 where p0: "p0\<lparr>pcache := pcache t\<rparr> = t" and
    look: "scrape_run e ctx_err ans q (scrape.make [LookingUp mes res ?p] False False (Gathering []) [] (pcache ?p))
      (scrape.make [LookingUp mes res p0] False False (Gathering []) [] (pcache t))"
    using pipe_run_lift [OF run, of e ctx_err q mes res] by blast
  have p0r: "collect p0 = Returned r" using arg_cong [OF p0, of collect] r by simp
  have "?S (scrape_init [mid] c) (scrape.make [LookingUp mes res ?p] False False (Gathering []) [] (pcache ?p))"
    using scrape_step.ask [where s = "scrape_init [mid] c" and i = 0 and mid = mid and mes = mes and res = res and n = n] x n
    by (simp add: scrape_init_def scrape.defs) (simp add: pipe_init_def)
  moreover have "?S (scrape.make [LookingUp mes res p0] False False (Gathering []) [] (pcache t))
      (scrape.make [fetched_state f] False False (Gathering []) [p0] (pcache t))"
    using scrape_step.looked [where s = "scrape.make [LookingUp mes res p0] False False (Gathering []) [] (pcache t)"
        and i = 0 and mes = mes and res = res and p = p0 and r = r] p0r f by (simp add: scrape.defs)
  ultimately show ?thesis using look c
    by (meson converse_rtranclp_into_rtranclp rtranclp_trans scrape_run_step.own r_into_rtranclp)
qed

lemma gather_one:
  "\<exists>t. (scrape_step e ctx_err ans q)\<^sup>*\<^sup>* (scrape.make [fetched_state f] False False (Gathering []) ls c) t \<and>
     scache t = c \<and> gathered t = Gathered (Inr (List.map_filter delivered [f]))"
proof -
  let ?S = "scrape_step e ctx_err ans q" and ?ms = "List.map_filter delivered [f]"
  define A where "A x d gs = scrape.make [x] d False gs ls c" for x d gs
  note d = A_def scrape.defs
  have "?S\<^sup>*\<^sup>* (A (fetched_state f) False (Gathering [])) (A (Ended f) False (Gathering ?ms))"
  proof (cases f)
    case (Delivered m)
    then show ?thesis
      using scrape_step.receive [where s = "A (Sending m) False (Gathering [])" and i = 0 and m = m and ms = "[]"]
      by (simp add: d List.map_filter_simps r_into_rtranclp)
  qed (simp_all add: List.map_filter_simps)
  moreover have "?S (A (Ended f) False (Gathering ?ms)) (A (Ended f) True (Gathering ?ms))"
    using scrape_step.close [where s = "A (Ended f) False (Gathering ?ms)"] by (simp add: d)
  moreover have "?S (A (Ended f) True (Gathering ?ms)) (A (Ended f) True (Gathered (Inr ?ms)))"
    using scrape_step.finish [where s = "A (Ended f) True (Gathering ?ms)" and ms = ?ms] by (simp add: d)
  ultimately have "?S\<^sup>*\<^sup>* (A (fetched_state f) False (Gathering [])) (A (Ended f) True (Gathered (Inr ?ms)))"
    by (meson rtranclp.rtrancl_into_rtrancl)
  moreover have "scache (A (Ended f) True (Gathered (Inr ?ms))) = c"
    "gathered (A (Ended f) True (Gathered (Inr ?ms))) = Gathered (Inr ?ms)" by (simp_all add: d)
  ultimately show ?thesis unfolding A_def by blast
qed

lemma scrape_run_steps: "(scrape_step e ctx_err ans q)\<^sup>*\<^sup>* s t \<Longrightarrow> scrape_run e ctx_err ans q s t"
  by (erule rtranclp_mono [THEN predicate2D, rotated]) (blast intro: scrape_run_step.own)

lemma request_single:
  assumes "fetch_outcome e ans q mid f"
  shows "request_outcome e ctx_err ans q [mid] (Inr (List.map_filter delivered [f]))"
proof -
  obtain c c' ls where c: "coherent ans c" and run: "scrape_run e ctx_err ans q (scrape_init [mid] c)
      (scrape.make [fetched_state f] False False (Gathering []) ls c')"
    using fetch_run [OF assms] by blast
  obtain t where "(scrape_step e ctx_err ans q)\<^sup>*\<^sup>* (scrape.make [fetched_state f] False False (Gathering []) ls c') t"
    and "gathered t = Gathered (Inr (List.map_filter delivered [f]))"
    using gather_one by blast
  with c run show ?thesis unfolding request_outcome_def by (meson rtranclp_trans scrape_run_steps)
qed

lemma sample_fetched: "\<exists>m. fetch_outcome sample_ext sample_ans sample_strategy ''1001'' (Delivered m)"
proof -
  obtain mes m where mes: "fetch_results sample_ext sample_strategy ''1001'' = Inr (mes, [sample_result])"
    and m: "Delivered m = fetch_end mes [sample_result] (Inr [(6031, sample_probe)])" using sample_fetch_results by metis
  have r: "collect sample_run_end = Returned (Inr [(6031, sample_probe)])" by (simp add: sample_run_end_def)
  have "consumer_count (workers sample_strategy) = Some 1"
    by (simp add: sample_strategy_def NewRequestStrategy_def sample_count)
  with sample_pipe_run r mes m show ?thesis
    by (auto simp: fetch_outcome_def intro!: exI [of _ "NewCache 10"] exI [of _ sample_run_end])
qed

text \<open>A scrape whose lookup is not disturbed.\<close>

lemma fetch_steps:
  assumes "fetch_results e q mid = Inr (mes, res)" and "consumer_count (workers q) = Some n" and "answers api ans"
    and "(pipe_step api)\<^sup>*\<^sup>* (pipe_init res n c) p" and "collect p = Returned r"
  shows "\<exists>t. (scrape_step e ctx_err ans q)\<^sup>*\<^sup>* (scrape_init [mid] c) t \<and> scache t = pcache p \<and>
    gathered t = Gathered (Inr (List.map_filter delivered [fetch_end mes res r]))"
proof -
  let ?S = "scrape_step e ctx_err ans q"
  define L where "L p = scrape.make [LookingUp mes res p] False False (Gathering []) [] (pcache p)" for p
  note d = L_def scrape.defs
  have "?S (L u) (L v)" if "pipe_step api u v" for u v
    using scrape_step.look [where s = "L u" and i = 0 and mes = mes and res = res and p = u and api = api and p' = v and ans = ans]
      that assms(3) by (simp add: d)
  with assms(4) have "?S\<^sup>*\<^sup>* (L (pipe_init res n c)) (L p)"
    by (induction rule: rtranclp_induct) (auto intro: rtranclp.rtrancl_into_rtrancl)
  moreover have "?S (scrape_init [mid] c) (L (pipe_init res n c))"
    using scrape_step.ask [where s = "scrape_init [mid] c" and i = 0 and mid = mid and mes = mes and res = res and n = n] assms(1,2)
    by (simp add: scrape_init_def d) (simp add: pipe_init_def)
  moreover have "?S (L p) (scrape.make [fetched_state (fetch_end mes res r)] False False (Gathering []) [p] (pcache p))"
    using scrape_step.looked [where s = "L p" and i = 0 and mes = mes and res = res and p = p and r = r] assms(5)
    by (simp add: d)
  ultimately have "?S\<^sup>*\<^sup>* (scrape_init [mid] c)
      (scrape.make [fetched_state (fetch_end mes res r)] False False (Gathering []) [p] (pcache p))"
    by (meson converse_rtranclp_into_rtranclp rtranclp.rtrancl_into_rtrancl)
  with gather_one [of e ctx_err ans q "fetch_end mes res r" "[p]" "pcache p"] show ?thesis
    by (meson rtranclp_trans)
qed

lemma sample_scrape:
  "\<exists>t m. (scrape_step sample_ext ctx_err sample_ans sample_strategy)\<^sup>*\<^sup>* (scrape_init [''1001''] (NewCache 10)) t \<and>
     scache t = pcache sample_run_end \<and> gathered t = Gathered (Inr [m])"
proof -
  obtain mes m where mes: "fetch_results sample_ext sample_strategy ''1001'' = Inr (mes, [sample_result])"
    and m: "fetch_end mes [sample_result] (Inr [(6031, sample_probe)]) = Delivered m" using sample_fetch_results by blast
  have r: "collect sample_run_end = Returned (Inr [(6031, sample_probe)])" by (simp add: sample_run_end_def)
  have "consumer_count (workers sample_strategy) = Some 1"
    by (simp add: sample_strategy_def NewRequestStrategy_def sample_count)
  from fetch_steps [OF mes this sample_answers sample_steps r, of ctx_err] m show ?thesis
    by (auto simp: List.map_filter_simps)
qed

theorem request_results_exact_witness:
  "\<exists>m fs. request_outcome sample_ext ''timeout'' sample_ans sample_strategy [''1001''] (Inr [m]) \<and>
     list_all2 (fetch_outcome sample_ext sample_ans sample_strategy) [''1001''] fs \<and>
     mset [m] = mset (List.map_filter delivered fs)"
proof -
  obtain m where "fetch_outcome sample_ext sample_ans sample_strategy ''1001'' (Delivered m)"
    using sample_fetched by blast
  from request_single [OF this, of "''timeout''"]
  have "request_outcome sample_ext ''timeout'' sample_ans sample_strategy [''1001''] (Inr [m])"
    by (simp add: List.map_filter_simps)
  with request_results_exact [OF this] show ?thesis by auto
qed

theorem request_results_returns_witness:
  "\<exists>t. scrape_step sample_ext ''timeout'' sample_ans sample_strategy (scrape_init [''1001''] (NewCache 10)) t"
proof (rule ccontr)
  assume "\<not> ?thesis"
  with request_results_returns [of sample_ext "''timeout''" sample_ans sample_strategy] show False
    by (auto simp: scrape_init_def)
qed

text \<open>C35: with \<open>worker.count\<close> 0 and filtering on, no measurement is ever delivered: the lookup yields no
  probes, the validator panics on the first result, and the panic is recovered. So a scrape that returns
  returns no measurements.\<close>

theorem no_workers_no_measurements:
  assumes "FilterInvalidResults (rs_cfg q)" and "workers q = 0" and "request_outcome e ctx_err ans q ids (Inr ms)"
  shows "ms = []"
proof (rule ccontr)
  assume "ms \<noteq> []"
  then obtain m where "m \<in> set ms" by (cases ms) auto
  with assms(3) obtain mid where d: "fetch_outcome e ans q mid (Delivered m)" by (rule request_outcome_mem)
  obtain first rest mes n c t ps where
      mt: "measurementForType e (Type_of first) mid (Itoa (Af first)) (rs_cfg q) = Some (Inr mes)"
    and n: "consumer_count (workers q) = Some n" and run: "pipe_run ans (pipe_init (first # rest) n c) t"
    and r: "collect t = Returned (Inr ps)" and a: "Measurement_add_all (with_probes ps (first # rest)) mes = Some m"
    using d by (rule fetch_outcome_Delivered)
  have "n = 0" using n assms(2) by (simp add: consumer_count_def)
  with lookup_no_workers [of ans "first # rest" c t] run r have "ps = []" by auto
  with a measurementForType_cases [OF mt] assms(1) add_all_None_iff [of "with_probes ps (first # rest)" mes]
  show False by (auto simp: with_probes_def)
qed

theorem no_workers_no_measurements_witness:
  "\<exists>ms. request_outcome sample_ext ''timeout'' sample_ans (sample_strategy\<lparr>workers := 0\<rparr>) [''1001''] (Inr ms) \<and> ms = []"
proof -
  let ?q = "sample_strategy\<lparr>workers := 0\<rparr>"
  have n: "consumer_count (workers ?q) = Some 0" by (simp add: consumer_count_def)
  have "\<exists>f. fetch_outcome sample_ext sample_ans ?q ''1001'' f"
  proof (cases "fetch_results sample_ext ?q ''1001''")
    case (Inr x)
    then obtain mes res where x: "fetch_results sample_ext ?q ''1001'' = Inr (mes, res)" by (cases x) auto
    obtain t where t: "pipe_run sample_ans (pipe_init res 0 (NewCache 10)) t" "collect t = Returned (Inr [])"
      using no_workers_run by blast
    have "fetch_outcome sample_ext sample_ans ?q ''1001'' (fetch_end mes res (Inr []))"
      unfolding fetch_outcome_def x using n t by (auto intro!: exI [of _ "NewCache 10"])
    then show ?thesis ..
  qed (simp add: fetch_outcome_def)
  then obtain f where "fetch_outcome sample_ext sample_ans ?q ''1001'' f" by blast
  then have out: "request_outcome sample_ext ''timeout'' sample_ans ?q [''1001''] (Inr (List.map_filter delivered [f]))"
    by (rule request_single)
  have "FilterInvalidResults (rs_cfg ?q)"
    by (simp add: sample_strategy_def NewRequestStrategy_def ok_cfg_def sample_cfg_def)
  from no_workers_no_measurements [OF this _ out] out show ?thesis by auto
qed

end
