(* ===== verification/Stream_Worker.thy ===== *)
theory Stream_Worker
  imports Types "HOL-Library.Signed_Division"
begin

text \<open>
  \<open>atlas/stream_strategy_worker.go\<close>: the reconnection delay, the subscription of one measurement and
  the handling of what its stream yields. 64-bit integers are \<open>int\<close> with the wrap-around
  written out; \<open>/\<close> truncates (\<open>sdiv\<close>).
\<close>

section \<open>The reconnection delay\<close>

definition wrap64 :: "int \<Rightarrow> int" where
  "wrap64 x = signed_take_bit 63 x"

definition minRetryDelay :: duration where "minRetryDelay = 1 * Second"
definition maxRetryDelay :: duration where "maxRetryDelay = 60 * Second"

text \<open>\<open>rand.Int63n\<close> panics unless its argument is positive; \<open>random\<close> is its answer otherwise.\<close>

definition Int63n :: "(int \<Rightarrow> int) \<Rightarrow> int \<Rightarrow> int option" where
  "Int63n random n = (if n \<le> 0 then None else Some (random n))"

definition retry_delay_base :: "nat \<Rightarrow> duration" where
  "retry_delay_base attempt =
     (let delay = wrap64 (minRetryDelay * wrap64 (push_bit attempt 1))
      in if delay > maxRetryDelay then maxRetryDelay else delay)"

definition getRetryDelay :: "(int \<Rightarrow> int) \<Rightarrow> nat \<Rightarrow> duration option" where
  "getRetryDelay random attempt = (let delay = retry_delay_base attempt in
     do { jitter \<leftarrow> Int63n random (delay sdiv 2);
          Some (wrap64 (wrap64 (delay + jitter) - delay sdiv 4)) })"

lemma wrap64_id: "- (2 ^ 63) \<le> x \<Longrightarrow> x < 2 ^ 63 \<Longrightarrow> wrap64 x = x"
  unfolding wrap64_def by (rule signed_take_bit_int_eq_self) simp_all

lemma backoff_fits:
  assumes "n \<le> 33"
  shows "wrap64 (minRetryDelay * wrap64 (push_bit n 1)) = Second * 2 ^ n"
proof -
  have fits: "wrap64 x = x \<and> wrap64 (Second * x) = Second * x" if "0 \<le> x" "x \<le> 2 ^ 33" for x
    using that by (auto intro!: wrap64_id)
  have "(2::int) ^ n \<le> 2 ^ 33" using assms by (intro power_increasing) simp_all
  then have "wrap64 (2 ^ n) = 2 ^ n" "wrap64 (Second * 2 ^ n) = Second * 2 ^ n"
    using fits [of "2 ^ n"] by simp_all
  then show ?thesis by (simp add: minRetryDelay_def push_bit_eq_mult)
qed

lemma retry_delay_base_eq: "n \<le> 33 \<Longrightarrow> retry_delay_base n = min (Second * 2 ^ n) (60 * Second)"
  unfolding retry_delay_base_def backoff_fits maxRetryDelay_def Let_def by (simp add: min_def)

lemma sdiv_pos: "0 \<le> a \<Longrightarrow> 0 < b \<Longrightarrow> a sdiv b = a div (b :: int)"
  by (simp add: signed_divide_int_def sgn_if)

text \<open>C23: up to 33 consecutive failures the delay is defined and lies within a quarter of the
  capped exponential back-off: at least three quarters of \<open>min (2^n s) 60s\<close> and less than five
  quarters of it, whatever the random number generator returns in its range.\<close>

theorem retry_delay_bounds:
  assumes "attempt \<le> 33" and "\<And>n. 0 < n \<Longrightarrow> 0 \<le> random n \<and> random n < n"
  shows "\<exists>d. getRetryDelay random attempt = Some d \<and>
    3 * min (Second * 2 ^ attempt) (60 * Second) \<le> 4 * d \<and>
    4 * d < 5 * min (Second * 2 ^ attempt) (60 * Second)"
proof -
  define b where "b = min (Second * 2 ^ attempt) (60 * Second)"
  have "1 \<le> (2::int) ^ attempt" by simp
  then have b: "Second \<le> b" "b \<le> 60 * Second" by (auto simp: b_def)
  have div: "b sdiv 2 = b div 2" "b sdiv 4 = b div 4" using b by (simp_all add: sdiv_pos)
  have j: "0 \<le> random (b div 2)" "random (b div 2) < b div 2" using assms(2) [of "b div 2"] b by auto
  have "getRetryDelay random attempt = Some (b + random (b div 2) - b div 4)"
    using b j retry_delay_base_eq [OF assms(1)]
    unfolding getRetryDelay_def Int63n_def b_def [symmetric] by (simp add: div wrap64_id)
  moreover have "4 dvd b"
  proof (cases "b = 60 * Second")
    case False
    then have "b = Second * 2 ^ attempt" by (auto simp: b_def min_def split: if_splits)
    then show ?thesis by simp
  qed simp
  ultimately show ?thesis using j unfolding b_def [symmetric] by (intro exI conjI) (assumption, presburger+)
qed

theorem retry_delay_bounds_witness:
  "\<exists>d. getRetryDelay (\<lambda>n. 0) 33 = Some d \<and> 45 * Second \<le> d \<and> d < 75 * Second"
  using retry_delay_bounds [of 33 "\<lambda>n. 0"] by auto

lemma retry_delay_base_overflow: "retry_delay_base 34 = Second * 2 ^ 34 - 2 ^ 64"
proof -
  have "wrap64 (push_bit 34 1) = 2 ^ 34" by (simp add: push_bit_eq_mult wrap64_id)
  moreover have "wrap64 (Second * 2 ^ 34) = Second * 2 ^ 34 - 2 ^ 64"
    by (simp add: wrap64_def signed_take_bit_eq_take_bit_shift take_bit_eq_mod)
  ultimately show ?thesis by (simp add: retry_delay_base_def minRetryDelay_def maxRetryDelay_def)
qed

lemma delay_undefined: "getRetryDelay random 34 = None"
proof -
  have "retry_delay_base 34 sdiv 2 \<le> 0" unfolding retry_delay_base_overflow by (simp add: signed_divide_int_def)
  then show ?thesis by (simp add: getRetryDelay_def Int63n_def Let_def)
qed

section \<open>The worker\<close>

text \<open>
  Where the goroutine of a worker is in its loop: about to subscribe; subscribed and counted, about to set its
  gauge to 1; in the select of \<open>listenForResults\<close>; blocked on sending a result; no longer counted, about to
  set its gauge to 0; after the branch, about to compute the delay; in the select on the delay; returned; or
  ended by a panic that \<open>run\<close> recovered.
\<close>

datatype w_state = Subscribing | Marking | Listening | Forwarding Result | Unmarking | Backoff | Sleeping duration
  | Stopped | Dead

record worker =
  w_measurement :: cfg_Measurement
  retryAttempt :: nat
  w_at :: w_state

definition new_worker :: "cfg_Measurement \<Rightarrow> worker" where
  "new_worker m = \<lparr>w_measurement = m, retryAttempt = 0, w_at = Subscribing\<rparr>"

text \<open>\<open>subscribe\<close>: whether the subscription succeeds; \<open>connect\<close> is the stream client (the error is only
  logged).\<close>

definition subscribe :: "(int \<Rightarrow> bool) \<Rightarrow> worker \<Rightarrow> bool" where
  "subscribe connect w = (case Atoi (M_ID (w_measurement w)) of None \<Rightarrow> False | Some msm \<Rightarrow> connect msm)"

text \<open>What the stream channel yields: it is closed, or there is a pointer to a result.\<close>

datatype stream_event = Closed | Msg "Result option"

datatype listened = Leave | Ignore | Forward Result

definition listenForResults :: "stream_event \<Rightarrow> listened" where
  "listenForResults ev = (case ev of
      Closed \<Rightarrow> Leave
    | Msg None \<Rightarrow> Ignore
    | Msg (Some m) \<Rightarrow> (case ParseError m of
        Some err \<Rightarrow> if HasPrefix err ''c.On(disconnect)'' then Leave else Forward m
      | None \<Rightarrow> Forward m))"

text \<open>The workers the counter counts, and those whose gauge is 1.\<close>

abbreviation connected :: "worker \<Rightarrow> bool" where
  "connected w \<equiv> (case w_at w of Marking \<Rightarrow> True | Listening \<Rightarrow> True | Forwarding m \<Rightarrow> True | _ \<Rightarrow> False)"

abbreviation reported :: "worker \<Rightarrow> bool" where
  "reported w \<equiv> (case w_at w of Listening \<Rightarrow> True | Forwarding m \<Rightarrow> True | Unmarking \<Rightarrow> True | _ \<Rightarrow> False)"

text \<open>Those that have left their loop for good.\<close>

abbreviation halted :: "worker \<Rightarrow> bool" where
  "halted w \<equiv> w_at w = Stopped \<or> w_at w = Dead"

end
