(* ===== verification/Stream_Strategy.thy ===== *)
theory Stream_Strategy
  imports Strategy Stream_Worker Probe
begin

text \<open>
  \<open>atlas/stream_strategy.go\<close>: the map of measurements the streaming strategy maintains, its processing
  of results, its answers and its health; and the system of its workers, the result channel
  and the processor as a step relation.
\<close>

section \<open>The strategy\<close>

record streamingStrategy =
  measurements :: "(string, Measurement) gomap"
  ss_cfg :: Config
  connectedWorkers :: "32 word"
  lastDataTime :: int

text \<open>The gauge vectors of \<open>atlas/metrics.go\<close> the strategy sets.\<close>

record gauges =
  StreamConnectedGauge :: "(string, int) gomap"
  LastDataTimestampGauge :: "(string, float64) gomap"

definition new_streamingStrategy :: "Config \<Rightarrow> streamingStrategy" where
  "new_streamingStrategy cfg = \<lparr>measurements = [], ss_cfg = cfg, connectedWorkers = 0, lastDataTime = 0\<rparr>"

text \<open>
  A call that may panic after it has changed the state returns the state and whether it panicked.
  \<open>add\<close>: the lock is released on a panic too.
\<close>

definition stream_add :: "ext \<Rightarrow> Result \<Rightarrow> Probe option \<Rightarrow> streamingStrategy \<Rightarrow> streamingStrategy \<times> bool" where
  "stream_add e m probe s =
     (let msm = Itoa (MsmId m);
          store = (\<lambda>s mes. (case Measurement_Add m probe mes of
             None \<Rightarrow> (s, True)
           | Some mes' \<Rightarrow> (s\<lparr>measurements := AList.update msm mes' (measurements s)\<rparr>, False)))
      in case map_of (measurements s) msm of
           Some mes \<Rightarrow> store s mes
         | None \<Rightarrow> (case measurementForType e (Type_of m) msm (Itoa (Af m)) (ss_cfg s) of
             None \<Rightarrow> (s, True)
           | Some (Inl err) \<Rightarrow> (s, False)
           | Some (Inr mes) \<Rightarrow> store (s\<lparr>measurements := AList.update msm mes (measurements s)\<rparr>) mes))"

text \<open>
  \<open>processMeasurementResult\<close> at the time \<open>now\<close>: it notes the time, looks the probe up and adds the result.
  \<open>looked\<close> is how \<open>probeForID\<close> ends: a probe, an error, or the panic on a cache that is not yet initialised
  (\<open>None\<close>). Other goroutines run during the lookup, so what comes before and after it are separate steps.
\<close>

definition process_mark :: "time \<Rightarrow> Result \<Rightarrow> streamingStrategy \<times> gauges \<Rightarrow> streamingStrategy \<times> gauges" where
  "process_mark now r sg =
     (let (s, g) = sg
      in (s\<lparr>lastDataTime := Time_Unix now\<rparr>,
          g\<lparr>LastDataTimestampGauge :=
            AList.update (Itoa (MsmId r)) (float64_of_int (Time_Unix now)) (LastDataTimestampGauge g)\<rparr>))"

definition process_found :: "ext \<Rightarrow> Probe res option \<Rightarrow> Result \<Rightarrow> streamingStrategy \<Rightarrow> streamingStrategy \<times> bool" where
  "process_found e looked r s =
     (case looked of
        None \<Rightarrow> (s, True)
      | Some (Inl err) \<Rightarrow> (s, False)
      | Some (Inr p) \<Rightarrow> stream_add e r (Some p) s)"

definition processMeasurementResult ::
    "ext \<Rightarrow> time \<Rightarrow> Probe res option \<Rightarrow> Result \<Rightarrow> streamingStrategy \<times> gauges \<Rightarrow> (streamingStrategy \<times> gauges) \<times> bool" where
  "processMeasurementResult e now looked r sg =
     (let (s, g) = process_mark now r sg;
          (s', panicked) = process_found e looked r s
      in ((s', g), panicked))"

definition getMapKeys :: "streamingStrategy \<Rightarrow> string list" where
  "getMapKeys s = map fst (measurements s)"

definition stream_MeasurementResults :: "streamingStrategy \<Rightarrow> string list \<Rightarrow> Measurement list res" where
  "stream_MeasurementResults s ids = Inr (List.map_filter (map_of (measurements s)) ids)"

definition stream_IsHealthy :: "time \<Rightarrow> streamingStrategy \<Rightarrow> bool" where
  "stream_IsHealthy now s =
     (if sint (connectedWorkers s) \<le> 0 then False
      else if Health_MaxDataAge (ss_cfg s) > 0 then
        (if lastDataTime s = 0 then False
         else \<not> Time_Sub now (lastDataTime s * Second) > Health_MaxDataAge (ss_cfg s))
      else True)"

section \<open>What the map should hold\<close>

text \<open>Specification: the results of a measurement whose probe was found, from the first of a supported type on.\<close>

definition supported :: "Config \<Rightarrow> Result \<Rightarrow> bool" where
  "supported cfg r \<longleftrightarrow> exporter_for (Type_of r) [] cfg \<noteq> None"

definition results_of :: "string \<Rightarrow> (time \<times> Probe res option \<times> Result) list \<Rightarrow> (Result \<times> Probe option) list" where
  "results_of msm hs = List.map_filter (\<lambda>(now, looked, r). case looked of
      Some (Inr p) \<Rightarrow> if Itoa (MsmId r) = msm then Some (r, Some p) else None | _ \<Rightarrow> None) hs"

definition stream_spec ::
    "ext \<Rightarrow> Config \<Rightarrow> string \<Rightarrow> (Result \<times> Probe option) list \<Rightarrow> Measurement option" where
  "stream_spec e cfg msm rs = (case dropWhile (\<lambda>(r, p). \<not> supported cfg r) rs of
      [] \<Rightarrow> None
    | (r, p) # rs' \<Rightarrow> (case measurementForType e (Type_of r) msm (Itoa (Af r)) cfg of
        Some (Inr mes) \<Rightarrow> Measurement_add_all ((r, p) # rs') mes | _ \<Rightarrow> None))"

lemma supported_iff: "supported cfg r \<longleftrightarrow> exporter_for (Type_of r) mid cfg \<noteq> None"
  by (auto simp: supported_def)

definition good_setup :: "ext \<Rightarrow> Config \<Rightarrow> bool" where
  "good_setup e cfg \<longleftrightarrow> (\<forall>o'. strictly_increasing (Buckets o') \<longrightarrow> hist_ok e o') \<and> buckets_increasing cfg"

lemma created:
  assumes "good_setup e cfg"
  shows "supported cfg r \<Longrightarrow> \<exists>mes. measurementForType e (Type_of r) msm v cfg = Some (Inr mes)"
    and "\<not> supported cfg r \<Longrightarrow> \<exists>err. measurementForType e (Type_of r) msm v cfg = Some (Inl err)"
  using measurementForType_supported [where e = e and cfg = cfg and mid = msm and t = "Type_of r" and ipVersion = v] assms supported_iff [of cfg r msm]
  by (auto simp: good_setup_def simp del: exporter_for.simps)

lemma Add_probe: "\<exists>mes'. Measurement_Add m (Some p) mes = Some mes'"
  by (simp add: Measurement_Add_eq)

lemma stream_add_step:
  assumes "good_setup e (ss_cfg s)" and "stream_add e m (Some p) s = (s', panicked)"
  shows "\<not> panicked \<and> ss_cfg s' = ss_cfg s \<and> connectedWorkers s' = connectedWorkers s \<and>
    lastDataTime s' = lastDataTime s \<and>
    map_of (measurements s') msm =
      (if msm = Itoa (MsmId m) then
         (case map_of (measurements s) msm of
            Some mes \<Rightarrow> Measurement_Add m (Some p) mes
          | None \<Rightarrow> stream_spec e (ss_cfg s) msm [(m, Some p)])
       else map_of (measurements s) msm)"
proof (cases "map_of (measurements s) (Itoa (MsmId m))")
  case (Some mes)
  with assms(2) Add_probe [of m p mes] show ?thesis
    by (auto simp: stream_add_def Let_def gomap_simps)
next
  case None
  show ?thesis
  proof (cases "supported (ss_cfg s) m")
    case True
    from created(1) [OF assms(1) this] obtain mes where
      mes: "measurementForType e (Type_of m) (Itoa (MsmId m)) (Itoa (Af m)) (ss_cfg s) = Some (Inr mes)" by blast
    with assms(2) None True Add_probe [of m p mes] show ?thesis
      by (auto simp: stream_add_def Let_def gomap_simps stream_spec_def)
  next
    case False
    from created(2) [OF assms(1) this] obtain err where
      "measurementForType e (Type_of m) (Itoa (MsmId m)) (Itoa (Af m)) (ss_cfg s) = Some (Inl err)" by blast
    with assms(2) None False show ?thesis by (auto simp: stream_add_def Let_def stream_spec_def)
  qed
qed

lemma results_of_simps [simp]:
  "results_of msm [] = []"
  "results_of msm (hs @ [(now, None, r)]) = results_of msm hs"
  "results_of msm (hs @ [(now, Some (Inl err), r)]) = results_of msm hs"
  "results_of msm (hs @ [(now, Some (Inr p), r)]) =
     (if Itoa (MsmId r) = msm then results_of msm hs @ [(r, Some p)] else results_of msm hs)"
  by (simp_all add: results_of_def List.map_filter_def)

lemma results_of_probes: "None \<notin> snd ` set (results_of msm hs)"
  by (auto simp: results_of_def set_map_filter_Some split: option.splits sum.splits if_splits)

lemma add_all_append:
  "Measurement_add_all (xs @ ys) mes = Option.bind (Measurement_add_all xs mes) (Measurement_add_all ys)"
  by (induction xs mes rule: Measurement_add_all.induct) (auto split: Option.bind_splits)

lemma stream_spec_snoc:
  assumes "good_setup e cfg" and "None \<notin> snd ` set rs"
  shows "stream_spec e cfg msm (rs @ [(r, Some p)]) =
    (case stream_spec e cfg msm rs of
       Some mes \<Rightarrow> Measurement_Add r (Some p) mes | None \<Rightarrow> stream_spec e cfg msm [(r, Some p)])"
proof (cases "dropWhile (\<lambda>(r, p). \<not> supported cfg r) rs")
  case Nil
  then have all: "\<forall>x \<in> set rs. (\<lambda>(r, p). \<not> supported cfg r) x" unfolding dropWhile_eq_Nil_conv .
  then have "dropWhile (\<lambda>(r, p). \<not> supported cfg r) (rs @ [(r, Some p)]) =
      dropWhile (\<lambda>(r, p). \<not> supported cfg r) [(r, Some p)]"
    by (intro dropWhile_append2) blast
  then have "stream_spec e cfg msm (rs @ [(r, Some p)]) = stream_spec e cfg msm [(r, Some p)]"
    unfolding stream_spec_def by (rule arg_cong)
  moreover have "stream_spec e cfg msm rs = None" unfolding stream_spec_def Nil by simp
  ultimately show ?thesis by simp
next
  case (Cons x xs)
  obtain q po where x: "x = (q, po)" by (cases x)
  have sub: "set (x # xs) \<subseteq> set rs" unfolding Cons [symmetric] by (blast dest: set_dropWhileD)
  from Cons x have "supported cfg q" using hd_dropWhile [of "\<lambda>(r, p). \<not> supported cfg r" rs] by auto
  from created(1) [OF assms(1) this] obtain mes where
    mes: "measurementForType e (Type_of q) msm (Itoa (Af q)) cfg = Some (Inr mes)" by blast
  have "Measurement_add_all (x # xs) mes \<noteq> None"
    unfolding add_all_None_iff using assms(2) sub by blast
  then obtain mes' where mes': "Measurement_add_all (x # xs) mes = Some mes'" by auto
  have "dropWhile (\<lambda>(r, p). \<not> supported cfg r) (rs @ [(r, Some p)]) = (x # xs) @ [(r, Some p)]"
    using Cons by (metis append_is_Nil_conv dropWhile_append dropWhile_eq_Nil_conv list.distinct(1))
  with Cons x mes mes' show ?thesis
    unfolding stream_spec_def using add_all_append [of "x # xs" "[(r, Some p)]" mes]
    by (cases "Measurement_Add r (Some p) mes'") simp_all
qed

section \<open>The system of workers and processor\<close>

text \<open>
  The processor waits in its range loop, looks up the probe of a result it has received, or is, after a
  recovered panic, in the select behind the loop. The last four
  fields are histories for the proofs: results sent to the channel, results processed (with the
  time and the lookup), results discarded, and the number of panics.
\<close>

datatype proc_state = Receiving | Looking time Result | Pausing

record system =
  strat :: streamingStrategy
  gau :: gauges
  ws :: "worker list"
  queue :: "Result list"
  capacity :: nat
  ctx_done :: bool
  proc :: proc_state
  pushed :: "Result list"
  handled :: "(time \<times> Probe res option \<times> Result) list"
  dropped :: "Result list"
  panics :: nat

text \<open>
  \<open>make\<close> panics when the size of the channel, converted to \<open>int\<close>, is negative or above what the run time allows
  (\<open>chan_max\<close>). \<open>NewStreamingStrategy\<close> and \<open>start\<close>, when it does not: one worker per configured measurement, and the
  processor.
\<close>

definition makechan :: "int \<Rightarrow> 64 word \<Rightarrow> nat option" where
  "makechan chan_max bufferSize =
     (if sint bufferSize < 0 \<or> chan_max < sint bufferSize then None else Some (nat (sint bufferSize)))"

definition start :: "cfg_Measurement list \<Rightarrow> 64 word \<Rightarrow> streamingStrategy \<Rightarrow> gauges \<Rightarrow> system" where
  "start ms bufferSize s g = \<lparr>strat = s, gau = g, ws = map new_worker ms, queue = [],
     capacity = nat (sint bufferSize), ctx_done = False, proc = Receiving,
     pushed = [], handled = [], dropped = [], panics = 0\<rparr>"

definition NewStreamingStrategy :: "Config \<Rightarrow> 64 word \<Rightarrow> gauges \<Rightarrow> system" where
  "NewStreamingStrategy cfg bufferSize g = start (Measurements cfg) bufferSize (new_streamingStrategy cfg) g"

abbreviation worker_at :: "system \<Rightarrow> nat \<Rightarrow> worker \<Rightarrow> w_state \<Rightarrow> bool" where
  "worker_at s i w x \<equiv> i < length (ws s) \<and> ws s ! i = w \<and> w_at w = x"

abbreviation set_worker :: "nat \<Rightarrow> worker \<Rightarrow> system \<Rightarrow> system" where
  "set_worker i w s \<equiv> s\<lparr>ws := (ws s)[i := w]\<rparr>"

definition add_connected :: "32 word \<Rightarrow> system \<Rightarrow> system" where
  "add_connected delta s = s\<lparr>strat := (strat s)\<lparr>connectedWorkers := connectedWorkers (strat s) + delta\<rparr>\<rparr>"

definition set_gauge :: "worker \<Rightarrow> int \<Rightarrow> system \<Rightarrow> system" where
  "set_gauge w v s = s\<lparr>gau := (gau s)\<lparr>StreamConnectedGauge :=
     AList.update (M_ID (w_measurement w)) v (StreamConnectedGauge (gau s))\<rparr>\<rparr>"

text \<open>
  The branches of \<open>run\<close>: a failed subscription; a successful one, up to the counter, then the gauge; the end of
  listening, up to the counter, then the gauge and the count of attempts.
\<close>

definition run_failed :: "nat \<Rightarrow> worker \<Rightarrow> system \<Rightarrow> system" where
  "run_failed i w s = set_worker i (w\<lparr>retryAttempt := retryAttempt w + 1, w_at := Backoff\<rparr>) s"

definition run_subscribed :: "nat \<Rightarrow> worker \<Rightarrow> system \<Rightarrow> system" where
  "run_subscribed i w s = add_connected 1 (set_worker i (w\<lparr>retryAttempt := 0, w_at := Marking\<rparr>) s)"

definition run_marked :: "nat \<Rightarrow> worker \<Rightarrow> system \<Rightarrow> system" where
  "run_marked i w s = set_gauge w 1 (set_worker i (w\<lparr>w_at := Listening\<rparr>) s)"

definition run_left :: "nat \<Rightarrow> worker \<Rightarrow> system \<Rightarrow> system" where
  "run_left i w s = add_connected (- 1) (set_worker i (w\<lparr>w_at := Unmarking\<rparr>) s)"

definition run_unmarked :: "nat \<Rightarrow> worker \<Rightarrow> system \<Rightarrow> system" where
  "run_unmarked i w s = set_gauge w 0 (set_worker i (w\<lparr>retryAttempt := retryAttempt w + 1, w_at := Backoff\<rparr>) s)"

text \<open>One round of the processor's range loop: up to the lookup of the probe, and from there on.\<close>

definition proc_begin :: "time \<Rightarrow> Result \<Rightarrow> system \<Rightarrow> system" where
  "proc_begin now r s =
     (let (st, g) = process_mark now r (strat s, gau s)
      in s\<lparr>strat := st, gau := g, proc := Looking now r\<rparr>)"

definition proc_finish :: "ext \<Rightarrow> time \<Rightarrow> Probe res option \<Rightarrow> Result \<Rightarrow> system \<Rightarrow> system" where
  "proc_finish e now looked r s =
     (let (st, panicked) = process_found e looked r (strat s)
      in s\<lparr>strat := st, proc := (if panicked then Pausing else Receiving),
           handled := handled s @ [(now, looked, r)], panics := panics s + (if panicked then 1 else 0)\<rparr>)"

lemma proc_round:
  "strat (proc_finish e now looked r (proc_begin now r s)) =
     fst (fst (processMeasurementResult e now looked r (strat s, gau s)))"
  "gau (proc_finish e now looked r (proc_begin now r s)) =
     snd (fst (processMeasurementResult e now looked r (strat s, gau s)))"
  by (simp_all add: proc_finish_def proc_begin_def processMeasurementResult_def process_mark_def split: prod.splits)

text \<open>The select behind the recovery of a panic: it receives a result and drops it, or finds none and pauses.\<close>

definition proc_discard :: "Result \<Rightarrow> Result list \<Rightarrow> system \<Rightarrow> system" where
  "proc_discard r rs s = s\<lparr>queue := rs, proc := Receiving, dropped := dropped s @ [r]\<rparr>"

definition proc_resume :: "system \<Rightarrow> system" where
  "proc_resume s = s\<lparr>proc := Receiving\<rparr>"

lemmas run_defs = run_failed_def run_subscribed_def run_marked_def run_left_def run_unmarked_def add_connected_def
  set_gauge_def proc_discard_def proc_resume_def

definition int63n_range :: "(int \<Rightarrow> int) \<Rightarrow> bool" where
  "int63n_range random \<longleftrightarrow> (\<forall>n > 0. 0 \<le> random n \<and> random n < n)"

text \<open>
  The steps. \<open>looks\<close> says how lookups of a probe may end, \<open>evs\<close> what the streams may yield. A send to the channel goes to its
  buffer, or directly to the processor when that waits on an empty channel.
\<close>

inductive stream_step ::
    "ext \<Rightarrow> (int \<Rightarrow> Probe res option \<Rightarrow> bool) \<Rightarrow> (stream_event \<Rightarrow> bool) \<Rightarrow> system \<Rightarrow> system \<Rightarrow> bool"
  for e looks evs where
  sub_fail: "worker_at s i w Subscribing \<Longrightarrow> \<not> subscribe connect w \<Longrightarrow> stream_step e looks evs s (run_failed i w s)"
| sub_ok: "worker_at s i w Subscribing \<Longrightarrow> subscribe connect w \<Longrightarrow> stream_step e looks evs s (run_subscribed i w s)"
| mark: "worker_at s i w Marking \<Longrightarrow> stream_step e looks evs s (run_marked i w s)"
| ignore: "worker_at s i w Listening \<Longrightarrow> evs ev \<Longrightarrow> listenForResults ev = Ignore \<Longrightarrow> stream_step e looks evs s s"
| forward: "worker_at s i w Listening \<Longrightarrow> evs ev \<Longrightarrow> listenForResults ev = Forward m \<Longrightarrow>
    stream_step e looks evs s (set_worker i (w\<lparr>w_at := Forwarding m\<rparr>) s)"
| leave: "worker_at s i w Listening \<Longrightarrow> evs ev \<Longrightarrow> listenForResults ev = Leave \<Longrightarrow>
    stream_step e looks evs s (run_left i w s)"
| leave_done: "worker_at s i w Listening \<Longrightarrow> ctx_done s \<Longrightarrow> stream_step e looks evs s (run_left i w s)"
| unmark: "worker_at s i w Unmarking \<Longrightarrow> stream_step e looks evs s (run_unmarked i w s)"
| push: "worker_at s i w (Forwarding m) \<Longrightarrow> length (queue s) < capacity s \<Longrightarrow>
    stream_step e looks evs s (set_worker i (w\<lparr>w_at := Listening\<rparr>)
      (s\<lparr>queue := queue s @ [m], pushed := pushed s @ [m]\<rparr>))"
| handoff: "worker_at s i w (Forwarding m) \<Longrightarrow> queue s = [] \<Longrightarrow> proc s = Receiving \<Longrightarrow>
    stream_step e looks evs s (proc_begin now m (set_worker i (w\<lparr>w_at := Listening\<rparr>)
      (s\<lparr>pushed := pushed s @ [m]\<rparr>)))"
| backoff: "worker_at s i w Backoff \<Longrightarrow> int63n_range random \<Longrightarrow> getRetryDelay random (retryAttempt w) = Some d \<Longrightarrow>
    stream_step e looks evs s (set_worker i (w\<lparr>w_at := Sleeping d\<rparr>) s)"
| die: "worker_at s i w Backoff \<Longrightarrow> int63n_range random \<Longrightarrow> getRetryDelay random (retryAttempt w) = None \<Longrightarrow>
    stream_step e looks evs s (set_worker i (w\<lparr>w_at := Dead\<rparr>) s)"
| wake: "worker_at s i w (Sleeping d) \<Longrightarrow> stream_step e looks evs s (set_worker i (w\<lparr>w_at := Subscribing\<rparr>) s)"
| stop: "worker_at s i w (Sleeping d) \<Longrightarrow> ctx_done s \<Longrightarrow>
    stream_step e looks evs s (set_worker i (w\<lparr>w_at := Stopped\<rparr>) s)"
| process: "proc s = Receiving \<Longrightarrow> queue s = r # rs \<Longrightarrow>
    stream_step e looks evs s (proc_begin now r (s\<lparr>queue := rs\<rparr>))"
| found: "proc s = Looking now r \<Longrightarrow> looks (PrbId r) looked \<Longrightarrow>
    stream_step e looks evs s (proc_finish e now looked r s)"
| discard: "proc s = Pausing \<Longrightarrow> queue s = r # rs \<Longrightarrow>
    stream_step e looks evs s (proc_discard r rs s)"
| discard_sender: "proc s = Pausing \<Longrightarrow> queue s = [] \<Longrightarrow> capacity s = 0 \<Longrightarrow> worker_at s i w (Forwarding m) \<Longrightarrow>
    stream_step e looks evs s (set_worker i (w\<lparr>w_at := Listening\<rparr>)
      (proc_discard m [] (s\<lparr>pushed := pushed s @ [m]\<rparr>)))"
| resume: "proc s = Pausing \<Longrightarrow> queue s = [] \<Longrightarrow> stream_step e looks evs s (proc_resume s)"
| cancel: "stream_step e looks evs s (s\<lparr>ctx_done := True\<rparr>)"

abbreviation any_event :: "stream_event \<Rightarrow> bool" where
  "any_event \<equiv> \<lambda>ev. True"

definition reachable :: "ext \<Rightarrow> (int \<Rightarrow> Probe res option \<Rightarrow> bool) \<Rightarrow> Config \<Rightarrow> 64 word \<Rightarrow> gauges \<Rightarrow> system \<Rightarrow> bool" where
  "reachable e looks cfg bufferSize g = (stream_step e looks any_event)\<^sup>*\<^sup>* (NewStreamingStrategy cfg bufferSize g)"

subsection \<open>The workers\<close>

text \<open>The retry count of a worker in each of its states, and the counter of connected workers.\<close>

definition worker_ok :: "worker \<Rightarrow> bool" where
  "worker_ok w = (case w_at w of
      Marking \<Rightarrow> retryAttempt w = 0
    | Listening \<Rightarrow> retryAttempt w = 0
    | Unmarking \<Rightarrow> retryAttempt w = 0
    | Forwarding m \<Rightarrow> retryAttempt w = 0
    | Subscribing \<Rightarrow> retryAttempt w \<le> 33
    | Backoff \<Rightarrow> 1 \<le> retryAttempt w \<and> retryAttempt w \<le> 34
    | Sleeping d \<Rightarrow> 1 \<le> retryAttempt w \<and> retryAttempt w \<le> 33
    | Stopped \<Rightarrow> retryAttempt w \<le> 33
    | Dead \<Rightarrow> retryAttempt w = 34)"

definition count_connected :: "worker list \<Rightarrow> 32 word" where
  "count_connected xs = (\<Sum>w\<leftarrow>xs. if connected w then 1 else 0)"

definition workers_ok :: "Config \<Rightarrow> system \<Rightarrow> bool" where
  "workers_ok cfg s \<longleftrightarrow> (\<forall>w \<in> set (ws s). worker_ok w) \<and>
     connectedWorkers (strat s) = count_connected (ws s) \<and>
     map w_measurement (ws s) = Measurements cfg \<and> ss_cfg (strat s) = cfg"

lemma proc_begin_sel [simp]:
  "ws (proc_begin now r s) = ws s" "queue (proc_begin now r s) = queue s"
  "pushed (proc_begin now r s) = pushed s" "dropped (proc_begin now r s) = dropped s"
  "capacity (proc_begin now r s) = capacity s" "ctx_done (proc_begin now r s) = ctx_done s"
  "handled (proc_begin now r s) = handled s" "panics (proc_begin now r s) = panics s"
  "proc (proc_begin now r s) = Looking now r"
  "strat (proc_begin now r s) = (strat s)\<lparr>lastDataTime := Time_Unix now\<rparr>"
  "StreamConnectedGauge (gau (proc_begin now r s)) = StreamConnectedGauge (gau s)"
  by (simp_all add: proc_begin_def process_mark_def)

lemma process_found_frame:
  assumes "process_found e looked r s = (s', panicked)"
  shows "ss_cfg s' = ss_cfg s \<and> connectedWorkers s' = connectedWorkers s \<and> lastDataTime s' = lastDataTime s"
  using assms
  by (auto simp: process_found_def stream_add_def Let_def split: option.splits sum.splits)

lemma proc_finish_cases:
  obtains st q where "process_found e looked r (strat s) = (st, q)"
    and "proc_finish e now looked r s = s\<lparr>strat := st, proc := (if q then Pausing else Receiving),
       handled := handled s @ [(now, looked, r)], panics := panics s + (if q then 1 else 0)\<rparr>"
  by (cases "process_found e looked r (strat s)") (auto simp: proc_finish_def)

lemma proc_finish_sel [simp]:
  "ws (proc_finish e now looked r s) = ws s" "queue (proc_finish e now looked r s) = queue s"
  "pushed (proc_finish e now looked r s) = pushed s" "dropped (proc_finish e now looked r s) = dropped s"
  "capacity (proc_finish e now looked r s) = capacity s" "ctx_done (proc_finish e now looked r s) = ctx_done s"
  "gau (proc_finish e now looked r s) = gau s"
  "handled (proc_finish e now looked r s) = handled s @ [(now, looked, r)]"
  "connectedWorkers (strat (proc_finish e now looked r s)) = connectedWorkers (strat s)"
  "ss_cfg (strat (proc_finish e now looked r s)) = ss_cfg (strat s)"
  "lastDataTime (strat (proc_finish e now looked r s)) = lastDataTime (strat s)"
  by (rule proc_finish_cases [of e looked r s now]; use process_found_frame in \<open>fastforce\<close>)+

lemma delay_defined:
  assumes "int63n_range random" and "n \<le> 33" shows "getRetryDelay random n \<noteq> None"
proof -
  have "1 \<le> (2::int) ^ n" by simp
  then have "Second \<le> retry_delay_base n" unfolding retry_delay_base_eq [OF assms(2)] by auto
  then show ?thesis by (simp add: getRetryDelay_def Int63n_def sdiv_pos Let_def)
qed

lemma workers_ok_update:
  assumes "workers_ok cfg s" and "i < length (ws s)" and "ws s ! i = w"
    and "ws t = (ws s)[i := w']" and "worker_ok w'" and "w_measurement w' = w_measurement w"
    and "connectedWorkers (strat t) = connectedWorkers (strat s) +
      (if connected w' then 1 else 0) - (if connected w then 1 else 0)"
    and "ss_cfg (strat t) = ss_cfg (strat s)"
  shows "workers_ok cfg t"
proof -
  have "\<forall>w \<in> set (ws t). worker_ok w"
    using assms(1,4,5) ball_set_update [of "ws s" worker_ok w' i] by (simp add: workers_ok_def)
  moreover have "map w_measurement (ws t) = map w_measurement (ws s)"
    using assms(2,3,4,6) by (simp add: map_update list_update_same_conv)
  moreover have "count_connected (ws t) = count_connected (ws s) +
      (if connected w' then 1 else 0) - (if connected w then 1 else 0)"
    unfolding count_connected_def assms(4) sum_list_update_group [OF assms(2)] assms(3) by simp
  ultimately show ?thesis using assms(1,7,8) by (simp add: workers_ok_def)
qed

lemma worker_ok_at: "workers_ok cfg s \<Longrightarrow> worker_at s i w x \<Longrightarrow> worker_ok w"
  by (auto simp: workers_ok_def)

lemma workers_ok_step:
  assumes "stream_step e looks evs s t" and "workers_ok cfg s" shows "workers_ok cfg t"
  using assms(1)
proof cases
  case (sub_fail i w connect)
  show ?thesis
    by (rule workers_ok_update [OF assms(2), of i w _ "w\<lparr>retryAttempt := retryAttempt w + 1, w_at := Backoff\<rparr>"])
      (use sub_fail worker_ok_at [OF assms(2) sub_fail(2)] in \<open>simp_all add: run_failed_def worker_ok_def\<close>)
next
  case (sub_ok i w connect)
  show ?thesis
    by (rule workers_ok_update [OF assms(2), of i w _ "w\<lparr>retryAttempt := 0, w_at := Marking\<rparr>"])
      (use sub_ok in \<open>simp_all add: run_subscribed_def add_connected_def worker_ok_def\<close>)
next
  case (mark i w)
  show ?thesis
    by (rule workers_ok_update [OF assms(2), of i w _ "w\<lparr>w_at := Listening\<rparr>"])
      (use mark worker_ok_at [OF assms(2) mark(2)] in \<open>simp_all add: run_marked_def set_gauge_def worker_ok_def\<close>)
next
  case (leave i w ev)
  show ?thesis
    by (rule workers_ok_update [OF assms(2), of i w _ "w\<lparr>w_at := Unmarking\<rparr>"])
      (use leave worker_ok_at [OF assms(2) leave(2)] in \<open>simp_all add: run_left_def add_connected_def worker_ok_def\<close>)
next
  case (leave_done i w)
  show ?thesis
    by (rule workers_ok_update [OF assms(2), of i w _ "w\<lparr>w_at := Unmarking\<rparr>"])
      (use leave_done worker_ok_at [OF assms(2) leave_done(2)] in \<open>simp_all add: run_left_def add_connected_def worker_ok_def\<close>)
next
  case (unmark i w)
  show ?thesis
    by (rule workers_ok_update [OF assms(2), of i w _ "w\<lparr>retryAttempt := retryAttempt w + 1, w_at := Backoff\<rparr>"])
      (use unmark worker_ok_at [OF assms(2) unmark(2)] in \<open>simp_all add: run_unmarked_def set_gauge_def worker_ok_def\<close>)
next
  case (backoff i w random d)
  then have "retryAttempt w \<noteq> 34" using delay_undefined by auto
  then show ?thesis
    by (intro workers_ok_update [OF assms(2), of i w _ "w\<lparr>w_at := Sleeping d\<rparr>"])
      (use backoff worker_ok_at [OF assms(2) backoff(2)] in \<open>simp_all add: worker_ok_def\<close>)
next
  case (die i w random)
  then have "\<not> retryAttempt w \<le> 33" using delay_defined by blast
  then show ?thesis
    by (intro workers_ok_update [OF assms(2), of i w _ "w\<lparr>w_at := Dead\<rparr>"])
      (use die worker_ok_at [OF assms(2) die(2)] in \<open>simp_all add: worker_ok_def\<close>)
next
  case (forward i w ev m)
  show ?thesis
    by (rule workers_ok_update [OF assms(2), of i w _ "w\<lparr>w_at := Forwarding m\<rparr>"])
      (use forward worker_ok_at [OF assms(2) forward(2)] in \<open>simp_all add: worker_ok_def\<close>)
next
  case (push i w m)
  show ?thesis
    by (rule workers_ok_update [OF assms(2), of i w _ "w\<lparr>w_at := Listening\<rparr>"])
      (use push worker_ok_at [OF assms(2) push(2)] in \<open>simp_all add: worker_ok_def\<close>)
next
  case (handoff i w m now)
  show ?thesis
    by (rule workers_ok_update [OF assms(2), of i w _ "w\<lparr>w_at := Listening\<rparr>"])
      (use handoff worker_ok_at [OF assms(2) handoff(2)] in \<open>simp_all add: worker_ok_def\<close>)
next
  case (wake i w d)
  show ?thesis
    by (rule workers_ok_update [OF assms(2), of i w _ "w\<lparr>w_at := Subscribing\<rparr>"])
      (use wake worker_ok_at [OF assms(2) wake(2)] in \<open>simp_all add: worker_ok_def\<close>)
next
  case (stop i w d)
  show ?thesis
    by (rule workers_ok_update [OF assms(2), of i w _ "w\<lparr>w_at := Stopped\<rparr>"])
      (use stop worker_ok_at [OF assms(2) stop(2)] in \<open>simp_all add: worker_ok_def\<close>)
next
  case (discard_sender i w m)
  show ?thesis
    by (rule workers_ok_update [OF assms(2), of i w _ "w\<lparr>w_at := Listening\<rparr>"])
      (use discard_sender worker_ok_at [OF assms(2) discard_sender(5)] in \<open>simp_all add: worker_ok_def proc_discard_def\<close>)
qed (use assms(2) in \<open>simp_all add: workers_ok_def run_defs\<close>)

subsection \<open>The channel\<close>

text \<open>Results reach the processor in the order in which they were sent, and are lost only after panics.\<close>

abbreviation handled_results :: "system \<Rightarrow> Result list" where
  "handled_results s \<equiv> map (\<lambda>(now, looked, r). r) (handled s)"

abbreviation in_hand :: "system \<Rightarrow> Result list" where
  "in_hand s \<equiv> (case proc s of Looking now r \<Rightarrow> [r] | _ \<Rightarrow> [])"

definition channel_ok :: "system \<Rightarrow> bool" where
  "channel_ok s \<longleftrightarrow>
     mset (pushed s) = mset (handled_results s) + mset (in_hand s) + mset (dropped s) + mset (queue s) \<and>
     length (dropped s) + (if proc s = Pausing then 1 else 0) \<le> panics s \<and>
     (panics s = 0 \<longrightarrow> pushed s = handled_results s @ in_hand s @ queue s) \<and>
     length (queue s) \<le> capacity s"

lemma proc_finish_panics:
  "panics (proc_finish e now looked r s) = panics s + (if proc (proc_finish e now looked r s) = Pausing then 1 else 0)"
  by (rule proc_finish_cases [of e looked r s now]) (simp add: proc_finish_def)

lemma in_hand_finish [simp]: "in_hand (proc_finish e now looked r s) = []"
  by (rule proc_finish_cases [of e looked r s now]) (simp add: proc_finish_def)

lemma channel_ok_step:
  assumes "stream_step e looks evs s t" and "channel_ok s" shows "channel_ok t"
  using assms(1)
proof cases
  case (found now r looked)
  with assms(2) show ?thesis by (simp add: channel_ok_def proc_finish_panics)
qed (use assms(2) in \<open>auto simp: channel_ok_def run_defs\<close>)

subsection \<open>The measurements\<close>

definition stored_ok :: "(int \<Rightarrow> Probe \<Rightarrow> bool) \<Rightarrow> Config \<Rightarrow> streamingStrategy \<Rightarrow> bool" where
  "stored_ok P cfg s \<longleftrightarrow> ss_cfg s = cfg \<and> (\<forall>k m. map_of (measurements s) k = Some m \<longrightarrow>
     Measurement_wf m \<and> measurement_id m = k \<and> probes_from P m \<and> own_histogram m \<and>
     (FilterInvalidResults cfg \<longrightarrow> validator m \<noteq> None))"

lemma probes_from_Add:
  "probes_from P mes \<Longrightarrow> P (PrbId m) p \<Longrightarrow> Measurement_Add m (Some p) mes = Some mes' \<Longrightarrow> probes_from P mes'"
  by (auto simp: probes_from_def Measurement_Add_eq split: if_splits)

lemma stored_ok_put:
  assumes "stored_ok P cfg s" and "Measurement_wf m" and "measurement_id m = k" and "probes_from P m"
    and "own_histogram m" and "FilterInvalidResults cfg \<Longrightarrow> validator m \<noteq> None"
  shows "stored_ok P cfg (s\<lparr>measurements := AList.update k m (measurements s)\<rparr>)"
  using assms by (simp add: stored_ok_def gomap_simps)

lemma stored_ok_Add:
  assumes "stored_ok P cfg s" and "map_of (measurements s) k = Some mes" and "P (PrbId m) p"
    and "Measurement_Add m (Some p) mes = Some mes'"
  shows "stored_ok P cfg (s\<lparr>measurements := AList.update k mes' (measurements s)\<rparr>)"
  using assms(1,2) Measurement_Add_sel [OF assms(4)]
  by (intro stored_ok_put [OF assms(1)])
    (auto simp: stored_ok_def intro: Measurement_wf_Add [OF _ assms(4)] probes_from_Add [of P, OF _ assms(3,4)] own_histogram_Add [OF _ assms(4)])

lemma stored_ok_add:
  assumes "stored_ok P cfg s" and "P (PrbId m) p" and "stream_add e m (Some p) s = (s', q)"
  shows "stored_ok P cfg s'"
proof (cases "map_of (measurements s) (Itoa (MsmId m))")
  case (Some mes)
  with assms Add_probe [of m p mes] show ?thesis by (auto simp: stream_add_def Let_def stored_ok_Add)
next
  case None
  show ?thesis
  proof (cases "measurementForType e (Type_of m) (Itoa (MsmId m)) (Itoa (Af m)) (ss_cfg s)")
    case t: (Some r)
    show ?thesis
    proof (cases r)
      case (Inr mes)
      let ?s = "s\<lparr>measurements := AList.update (Itoa (MsmId m)) mes (measurements s)\<rparr>"
      have mes: "measurementForType e (Type_of m) (Itoa (MsmId m)) (Itoa (Af m)) (ss_cfg s) = Some (Inr mes)"
        using t Inr by simp
      have "stored_ok P cfg ?s"
        using assms(1) measurementForType_cases [OF mes]
        by (intro stored_ok_put)
          (auto simp: measurementForType_wf [OF mes] measurementForType_id [OF mes]
            measurementForType_histogram [OF mes] probes_from_def stored_ok_def)
      moreover obtain mes' where add: "Measurement_Add m (Some p) mes = Some mes'" using Add_probe by blast
      moreover have "map_of (measurements ?s) (Itoa (MsmId m)) = Some mes" by (simp add: gomap_simps)
      ultimately have "stored_ok P cfg (?s\<lparr>measurements := AList.update (Itoa (MsmId m)) mes' (measurements ?s)\<rparr>)"
        using stored_ok_Add assms(2) by blast
      with assms(3) None mes add show ?thesis by (simp add: stream_add_def)
    qed (use assms None t in \<open>simp add: stream_add_def\<close>)
  qed (use assms None in \<open>simp add: stream_add_def\<close>)
qed

lemma stored_ok_found:
  assumes "stored_ok P cfg (strat s)" and "\<And>p. looked = Some (Inr p) \<Longrightarrow> P (PrbId r) p"
  shows "stored_ok P cfg (strat (proc_finish e now looked r s))"
proof -
  obtain st q where p: "process_found e looked r (strat s) = (st, q)" and h: "strat (proc_finish e now looked r s) = st"
    by (rule proc_finish_cases [of e looked r s now]) auto
  show ?thesis unfolding h using p assms
    by (auto simp: process_found_def stored_ok_add split: option.splits sum.splits)
qed

lemma stored_ok_step:
  assumes "stream_step e looks evs s t" and "stored_ok P cfg (strat s)"
    and "\<And>k p. looks k (Some (Inr p)) \<Longrightarrow> P k p"
  shows "stored_ok P cfg (strat t)"
  using assms(1)
proof cases
  case (found now r looked)
  then show ?thesis using assms(2,3) by (auto intro: stored_ok_found)
qed (use assms(2) in \<open>simp_all add: stored_ok_def run_defs\<close>)

text \<open>With strictly increasing buckets the map is what the specification says, whether or not lookups panic.\<close>

definition map_ok :: "ext \<Rightarrow> Config \<Rightarrow> system \<Rightarrow> bool" where
  "map_ok e cfg s \<longleftrightarrow> ss_cfg (strat s) = cfg \<and>
     (\<forall>msm. map_of (measurements (strat s)) msm = stream_spec e cfg msm (results_of msm (handled s)))"

lemma map_ok_found:
  assumes "good_setup e cfg" and "map_ok e cfg s"
  shows "map_ok e cfg (proc_finish e now looked r s) \<and>
    (looked \<noteq> None \<longrightarrow> panics (proc_finish e now looked r s) = panics s)"
proof -
  obtain st q where p: "process_found e looked r (strat s) = (st, q)"
    and h: "proc_finish e now looked r s = s\<lparr>strat := st, proc := (if q then Pausing else Receiving),
       handled := handled s @ [(now, looked, r)], panics := panics s + (if q then 1 else 0)\<rparr>"
    by (rule proc_finish_cases)
  have good: "good_setup e (ss_cfg (strat s))" using assms by (simp add: map_ok_def)
  consider (nil) "looked = None" | (err) err where "looked = Some (Inl err)" | (ok) pr where "looked = Some (Inr pr)"
    by (metis not_None_eq sum.exhaust)
  then show ?thesis
  proof cases
    case nil
    with p assms(2) show ?thesis unfolding h map_ok_def by (simp add: process_found_def)
  next
    case err
    with p assms(2) show ?thesis unfolding h map_ok_def by (simp add: process_found_def)
  next
    case ok
    have add: "stream_add e r (Some pr) (strat s) = (st, q)" using p ok by (simp add: process_found_def)
    have spec: "stream_spec e cfg msm (results_of msm (handled s @ [(now, looked, r)])) = map_of (measurements st) msm" for msm
    proof (cases "msm = Itoa (MsmId r)")
      case True
      then show ?thesis
        using stream_add_step [OF good add, of msm] assms(2)
          stream_spec_snoc [OF assms(1) results_of_probes, of msm msm "handled s" r pr]
        by (auto simp: map_ok_def ok split: option.splits)
    next
      case False
      then show ?thesis using stream_add_step [OF good add, of msm] assms(2) by (simp add: map_ok_def ok)
    qed
    with stream_add_step [OF good add] assms(2) show ?thesis unfolding h map_ok_def by simp
  qed
qed

lemma map_ok_step:
  assumes "stream_step e looks evs s t" and "map_ok e cfg s" and "good_setup e cfg"
  shows "map_ok e cfg t \<and> ((\<forall>k. \<not> looks k None) \<longrightarrow> panics t = panics s)"
  using assms(1)
proof cases
  case (found now r looked)
  then show ?thesis using map_ok_found [OF assms(3,2)] by metis
qed (use assms(2) in \<open>simp_all add: map_ok_def run_defs\<close>)

text \<open>The time of the last data is the time at which the last result was received.\<close>

definition last_seen :: "system \<Rightarrow> time option" where
  "last_seen s = (case proc s of
      Looking now r \<Rightarrow> Some now
    | _ \<Rightarrow> if handled s = [] then None else Some (fst (last (handled s))))"

definition time_ok :: "system \<Rightarrow> bool" where
  "time_ok s \<longleftrightarrow> lastDataTime (strat s) = (case last_seen s of None \<Rightarrow> 0 | Some now \<Rightarrow> Time_Unix now)"

lemma last_seen_finish [simp]: "last_seen (proc_finish e now looked r s) = Some now"
  by (rule proc_finish_cases [of e looked r s now]) (simp add: last_seen_def)

lemma time_ok_step:
  assumes "stream_step e looks evs s t" and "time_ok s" shows "time_ok t"
  using assms(1)
proof cases
  case (found now r looked)
  with assms(2) show ?thesis by (simp add: time_ok_def) (simp add: last_seen_def)
qed (use assms(2) in \<open>auto simp: time_ok_def last_seen_def run_defs split: proc_state.splits\<close>)

subsection \<open>Reachable states\<close>

lemma reachable_ok:
  assumes "reachable e looks cfg b g s"
  shows "workers_ok cfg s" and "channel_ok s"
    and "(\<And>k p. looks k (Some (Inr p)) \<Longrightarrow> P k p) \<Longrightarrow> stored_ok P cfg (strat s)"
    and "good_setup e cfg \<Longrightarrow> map_ok e cfg s \<and> ((\<forall>k. \<not> looks k None) \<longrightarrow> panics s = 0)"
    and "time_ok s"
proof -
  note d = NewStreamingStrategy_def start_def new_streamingStrategy_def
  note run = assms [unfolded reachable_def]
  show "workers_ok cfg s" using run
  proof (induction rule: rtranclp_induct)
    case base
    show ?case by (auto simp: d workers_ok_def worker_ok_def new_worker_def count_connected_def comp_def)
  qed (rule workers_ok_step)
  show "channel_ok s" using run
  proof (induction rule: rtranclp_induct)
    case base
    show ?case by (simp add: d channel_ok_def)
  qed (rule channel_ok_step)
  show "stored_ok P cfg (strat s)" if "\<And>k p. looks k (Some (Inr p)) \<Longrightarrow> P k p" using run
  proof (induction rule: rtranclp_induct)
    case base
    show ?case by (simp add: d stored_ok_def)
  qed (use that in \<open>blast intro: stored_ok_step\<close>)
  show "map_ok e cfg s \<and> ((\<forall>k. \<not> looks k None) \<longrightarrow> panics s = 0)" if "good_setup e cfg" using run
  proof (induction rule: rtranclp_induct)
    case base
    show ?case by (simp add: d map_ok_def stream_spec_def)
  qed (use that map_ok_step in fastforce)
  show "time_ok s" using run
  proof (induction rule: rtranclp_induct)
    case base
    show ?case by (simp add: d time_ok_def last_seen_def)
  qed (rule time_ok_step)
qed

definition stream_outcome ::
    "ext \<Rightarrow> (int \<Rightarrow> Probe res option \<Rightarrow> bool) \<Rightarrow> Config \<Rightarrow> 64 word \<Rightarrow> gauges \<Rightarrow> system \<Rightarrow> string list \<Rightarrow> Measurement list res \<Rightarrow> bool" where
  "stream_outcome e looks cfg b g s ids r \<longleftrightarrow>
     reachable e looks cfg b g s \<and> r = stream_MeasurementResults (strat s) ids"

subsection \<open>Live measurements\<close>

text \<open>
  \<open>MeasurementResults\<close> hands out pointers into the map: while a scrape describes and collects a measurement the
  processor goes on adding results to it. \<open>Collect\<close> copies results and probes under the lock and reads the
  histograms later without it, so it may see the results of one state and the histograms of a later one.
\<close>

definition stream_live ::
    "ext \<Rightarrow> (int \<Rightarrow> Probe res option \<Rightarrow> bool) \<Rightarrow> system \<Rightarrow> Measurement \<Rightarrow> Measurement \<Rightarrow> bool" where
  "stream_live e looks s m m' \<longleftrightarrow> (\<exists>s1 s2 m1 m2. (stream_step e looks any_event)\<^sup>*\<^sup>* s s1 \<and> (stream_step e looks any_event)\<^sup>*\<^sup>* s1 s2 \<and>
     map_of (measurements (strat s1)) (measurement_id m) = Some m1 \<and>
     map_of (measurements (strat s2)) (measurement_id m) = Some m2 \<and> m' = m1\<lparr>histograms := histograms m2\<rparr>)"

lemma stream_add_object:
  assumes "stream_add e r p s = (s', q)" and "map_of (measurements s) k = Some m"
  shows "\<exists>m'. map_of (measurements s') k = Some m' \<and> same_object m m'"
  using assms
  by (auto simp: stream_add_def Let_def gomap_simps same_object_Add split: option.splits sum.splits if_splits)

lemma measurement_stays_step:
  assumes "stream_step e looks evs s t" and "map_of (measurements (strat s)) k = Some m"
  shows "\<exists>m'. map_of (measurements (strat t)) k = Some m' \<and> same_object m m'"
  using assms(1)
proof cases
  case (found now r looked)
  obtain st q where p: "process_found e looked r (strat s) = (st, q)" and h: "strat (proc_finish e now looked r s) = st"
    by (rule proc_finish_cases [of e looked r s now]) auto
  show ?thesis unfolding found(1) h using p assms(2)
    by (auto simp: process_found_def dest: stream_add_object split: option.splits sum.splits)
qed (use assms(2) in \<open>simp_all add: run_defs\<close>)

lemma measurement_stays:
  assumes "(stream_step e looks evs)\<^sup>*\<^sup>* s t" and "map_of (measurements (strat s)) k = Some m"
  shows "\<exists>m'. map_of (measurements (strat t)) k = Some m' \<and> same_object m m'"
  using assms(1)
proof (induction rule: rtranclp_induct)
  case (step t u)
  then obtain m' where "map_of (measurements (strat t)) k = Some m'" and m: "same_object m m'" by blast
  from measurement_stays_step [OF step.hyps(2) this(1)] m show ?case by (blast intro: same_object_trans)
qed (use assms(2) in simp)

lemma reachable_steps:
  "reachable e looks cfg b g s \<Longrightarrow> (stream_step e looks any_event)\<^sup>*\<^sup>* s t \<Longrightarrow> reachable e looks cfg b g t"
  unfolding reachable_def by (rule rtranclp_trans)

lemma stored_served:
  assumes "stored_ok P cfg s" and "map_of (measurements s) k = Some m"
  shows "served_ok P (FilterInvalidResults cfg) m" and "measurement_id m = k"
  using assms by (auto simp: stored_ok_def served_ok_def)

lemma live_ok:
  assumes "reachable e looks cfg b g s" and "map_of (measurements (strat s)) k = Some m" and "stream_live e looks s m m'"
  shows "served_ok (\<lambda>k p. looks k (Some (Inr p))) (FilterInvalidResults cfg) m' \<and> same_object m m'"
proof -
  let ?P = "\<lambda>k p. looks k (Some (Inr p))"
  have stored: "stored_ok ?P cfg (strat t)" if "reachable e looks cfg b g t" for t
    by (rule reachable_ok(3) [OF that])
  have k: "measurement_id m = k" by (rule stored_served(2) [OF stored [OF assms(1)] assms(2)])
  from assms(3) k obtain s1 s2 m1 m2 where
      s1: "(stream_step e looks any_event)\<^sup>*\<^sup>* s s1" and s2: "(stream_step e looks any_event)\<^sup>*\<^sup>* s1 s2"
    and m1: "map_of (measurements (strat s1)) k = Some m1" and m2: "map_of (measurements (strat s2)) k = Some m2"
    and m': "m' = m1\<lparr>histograms := histograms m2\<rparr>" unfolding stream_live_def by blast
  have 1: "same_object m m1" using measurement_stays [OF s1 assms(2)] m1 by simp
  have 2: "same_object m1 m2" using measurement_stays [OF s2 m1] m2 by simp
  then have o: "same_object m1 m'" by (simp add: m' same_object_def)
  have "served_ok ?P (FilterInvalidResults cfg) m1"
    by (rule stored_served(1) [OF stored [OF reachable_steps [OF assms(1) s1]] m1])
  with own_histogram_same [OF o] have "served_ok ?P (FilterInvalidResults cfg) m'"
    by (simp add: served_ok_def m' Measurement_wf_def probes_from_def)
  with same_object_trans [OF 1 o] show ?thesis by blast
qed

interpretation stream: strategy "stream_outcome e looks cfg b g" "stream_live e looks" "\<lambda>s. FilterInvalidResults cfg"
    "\<lambda>k p. looks k (Some (Inr p))"
  for e looks cfg b g
proof
  fix s ids ms m m' assume o: "stream_outcome e looks cfg b g s ids (Inr ms)" "m \<in> set ms"
  then obtain k where r: "reachable e looks cfg b g s" and k: "map_of (measurements (strat s)) k = Some m"
    by (auto simp: stream_outcome_def stream_MeasurementResults_def set_map_filter_Some)
  have "measurement_id m = k" by (rule stored_served(2) [OF reachable_ok(3) [OF r] k])
  with k show "stream_live e looks s m m" unfolding stream_live_def by force
  assume "stream_live e looks s m m'"
  from live_ok [OF r k this] show "served_ok (\<lambda>k p. looks k (Some (Inr p))) (FilterInvalidResults cfg) m'"
    and "same_object m m'" by blast+
next
  fix s ids ms assume o: "stream_outcome e looks cfg b g s ids (Inr ms)"
  have "stored_ok (\<lambda>k p. looks k (Some (Inr p))) cfg (strat s)"
    by (rule reachable_ok(3) [OF conjunct1 [OF o [unfolded stream_outcome_def]]])
  then have "mset (map measurement_id (List.map_filter (map_of (measurements (strat s))) ids)) \<subseteq># mset ids"
    by (induction ids) (auto simp: List.map_filter_simps stored_ok_def intro: subset_mset.order_trans split: option.splits)
  with o show "mset (map measurement_id ms) \<subseteq># mset ids"
    by (simp add: stream_outcome_def stream_MeasurementResults_def)
qed

lemma stream_IsHealthy_iff:
  assumes "reachable e looks cfg b g s" and "length (Measurements cfg) < 2 ^ 31"
  shows "stream_IsHealthy now (strat s) \<longleftrightarrow> (\<exists>w \<in> set (ws s). connected w) \<and>
    (Health_MaxDataAge cfg > 0 \<longrightarrow> lastDataTime (strat s) \<noteq> 0 \<and>
       Time_Sub now (lastDataTime (strat s) * Second) \<le> Health_MaxDataAge cfg)"
proof -
  note inv = reachable_ok(1) [OF assms(1), unfolded workers_ok_def]
  let ?n = "length (filter connected (ws s))"
  have "length (ws s) = length (Measurements cfg)" using inv by (metis length_map)
  then have "?n < 2 ^ 31" using assms(2) length_filter_le [of connected "ws s"] by linarith
  then have "sint (of_nat ?n :: 32 word) = int ?n"
    by (simp add: sint_uint unat_of_nat uint_nat signed_take_bit_int_eq_self)
  moreover have "connectedWorkers (strat s) = of_nat ?n"
    using inv by (simp add: count_connected_def sum_list_of_nat_filter)
  moreover have "?n = 0 \<longleftrightarrow> \<not> (\<exists>w \<in> set (ws s). connected w)" by (simp add: filter_empty_conv)
  ultimately show ?thesis using inv by (auto simp: stream_IsHealthy_def)
qed

lemma stream_run_refines:
  assumes "reachable e looks cfg b g s" and "good_setup e cfg"
  shows "stream_MeasurementResults (strat s) ids =
      Inr (List.map_filter (\<lambda>msm. stream_spec e cfg msm (results_of msm (handled s))) ids) \<and>
    ((\<forall>k. \<not> looks k None) \<longrightarrow> pushed s = handled_results s @ in_hand s @ queue s \<and> dropped s = [])"
proof -
  have m: "map_ok e cfg s \<and> ((\<forall>k. \<not> looks k None) \<longrightarrow> panics s = 0)" by (rule reachable_ok(4) [OF assms])
  then have "map_of (measurements (strat s)) = (\<lambda>msm. stream_spec e cfg msm (results_of msm (handled s)))"
    by (auto simp: map_ok_def)
  with m reachable_ok(2) [OF assms(1)] show ?thesis
    by (auto simp: channel_ok_def stream_MeasurementResults_def split: if_splits)
qed

section \<open>Properties\<close>

text \<open>C3: streaming refines its specification. With strictly increasing buckets, in every reachable state and
  whatever the interleaving of workers and processor, a request gets, for each id, exactly the measurement made
  from the processed results of that id whose probe was found, from the first one of a supported type on, added
  in order; results lost to panics leave no trace in it. When no lookup panics, results are processed in the order in
  which the workers sent them and none is lost.\<close>

theorem stream_refines:
  assumes "reachable e looks cfg b g s" and "good_setup e cfg"
  shows "stream_MeasurementResults (strat s) ids =
      Inr (List.map_filter (\<lambda>msm. stream_spec e cfg msm (results_of msm (handled s))) ids) \<and>
    ((\<forall>k. \<not> looks k None) \<longrightarrow> pushed s = handled_results s @ in_hand s @ queue s \<and> dropped s = [])"
  by (rule stream_run_refines [OF assms])

text \<open>C19: even when processing panics, every result a worker has sent is processed, in the hands of the processor, waits in
  the channel or has been discarded; there are at most as many discarded results as panics, and the channel never holds
  more than its capacity. (A discarded result is one the select behind the recovery receives.)\<close>

theorem stream_losses:
  assumes "reachable e looks cfg b g s"
  shows "mset (pushed s) = mset (handled_results s) + mset (in_hand s) + mset (dropped s) + mset (queue s) \<and>
    length (dropped s) \<le> panics s \<and> length (queue s) \<le> capacity s"
  using reachable_ok(2) [OF assms] by (auto simp: channel_ok_def split: if_splits)

subsection \<open>Halted workers\<close>

lemma halted_step:
  assumes "stream_step e looks evs s t" and "i < length (ws s)" and "halted (ws s ! i)"
  shows "length (ws t) = length (ws s) \<and> ws t ! i = ws s ! i"
  using assms(1)
  by cases (use assms(2,3) in \<open>auto simp: nth_list_update run_defs\<close>)

lemma halted_stays:
  assumes "(stream_step e looks evs)\<^sup>*\<^sup>* s t" and "i < length (ws s)" and "halted (ws s ! i)"
  shows "length (ws t) = length (ws s) \<and> ws t ! i = ws s ! i"
  using assms(1)
proof (induction rule: rtranclp_induct)
  case (step t u)
  then show ?case using halted_step [OF step.hyps(2), of i] assms(2,3) by simp
qed simp

lemma halted_count: "\<forall>w \<in> set xs. halted w \<Longrightarrow> count_connected xs = 0"
  by (induction xs) (auto simp: count_connected_def)

subsection \<open>Failing subscriptions\<close>

text \<open>
  Runs in which no subscription of worker \<open>i\<close> succeeds, with the number of those that have failed. The other workers,
  the streams, the processor and the context do what they want.
\<close>

inductive fails ::
    "ext \<Rightarrow> (int \<Rightarrow> Probe res option \<Rightarrow> bool) \<Rightarrow> nat \<Rightarrow> system \<Rightarrow> nat \<Rightarrow> system \<Rightarrow> bool"
  for e looks i s where
  none_yet: "fails e looks i s 0 s"
| other: "fails e looks i s n t \<Longrightarrow> stream_step e looks any_event t u \<Longrightarrow>
    w_at (ws t ! i) \<noteq> Subscribing \<or> ws u ! i = ws t ! i \<Longrightarrow> fails e looks i s n u"
| refused: "fails e looks i s n t \<Longrightarrow> worker_at t i w Subscribing \<Longrightarrow> \<not> subscribe connect w \<Longrightarrow>
    fails e looks i s (Suc n) (run_failed i w t)"

lemma fails_run: "fails e looks i s n t \<Longrightarrow> (stream_step e looks any_event)\<^sup>*\<^sup>* s t"
proof (induction rule: fails.induct)
  case (refused n t w connect)
  from stream_step.sub_fail [OF refused.hyps(2,3)] refused.IH show ?case
    by (blast intro: rtranclp.rtrancl_into_rtrancl)
qed (auto intro: rtranclp.rtrancl_into_rtrancl)

abbreviation retrying :: "worker \<Rightarrow> bool" where
  "retrying w \<equiv> (case w_at w of Subscribing \<Rightarrow> True | Backoff \<Rightarrow> True | Sleeping d \<Rightarrow> True | Stopped \<Rightarrow> True | Dead \<Rightarrow> True | _ \<Rightarrow> False)"

text \<open>A step leaves a worker that is not connected where it is, unless it is one of the branches behind the subscription.\<close>

lemma retrying_step:
  assumes "stream_step e looks evs s t" and "i < length (ws s)" and "retrying (ws s ! i)" and "w_at (ws s ! i) \<noteq> Subscribing"
  shows "retrying (ws t ! i) \<and> retryAttempt (ws t ! i) = retryAttempt (ws s ! i) \<and> length (ws t) = length (ws s)"
  using assms(1)
  by cases (use assms(2-4) in \<open>auto simp: nth_list_update run_defs\<close>)

lemma steps_length: "stream_step e looks evs s t \<Longrightarrow> length (ws t) = length (ws s)"
  by (induction rule: stream_step.induct) (simp_all add: run_defs)

lemma fails_count:
  assumes "fails e looks i s n t" and "worker_at s i w Subscribing" and "retryAttempt w = 0"
  shows "i < length (ws t) \<and> retrying (ws t ! i) \<and> retryAttempt (ws t ! i) = n"
  using assms(1)
proof (induction rule: fails.induct)
  case (other n t u)
  show ?case
  proof (cases "w_at (ws t ! i) = Subscribing")
    case True
    with other steps_length [OF other.hyps(2)] show ?thesis by simp
  next
    case False
    with retrying_step [OF other.hyps(2), of i] other.IH show ?thesis by simp
  qed
next
  case (refused n t w connect)
  then show ?case by (simp add: run_failed_def)
qed (use assms(2,3) in simp)

lemma failing_round:
  assumes "fails e looks i s n t" and "worker_at t i w Subscribing" and "retryAttempt w = n" and "n < 33"
  shows "\<exists>u w'. fails e looks i s (Suc n) u \<and> worker_at u i w' Subscribing \<and> retryAttempt w' = Suc n"
proof -
  let ?f = "run_failed i w t" and ?v = "w\<lparr>retryAttempt := Suc n, w_at := Backoff\<rparr>"
  have v: "worker_at ?f i ?v Backoff" using assms(2,3) by (simp add: run_failed_def)
  have range: "int63n_range (\<lambda>n. 0)" by (simp add: int63n_range_def)
  then obtain d where d: "getRetryDelay (\<lambda>n. 0) (Suc n) = Some d"
    using delay_defined [of "\<lambda>n. 0" "Suc n"] assms(4) by auto
  let ?s = "set_worker i (?v\<lparr>w_at := Sleeping d\<rparr>) ?f" and ?w = "?v\<lparr>w_at := Sleeping d, w_at := Subscribing\<rparr>"
  have 1: "fails e looks i s (Suc n) ?f"
    by (rule fails.refused [OF assms(1,2), of "\<lambda>_. False"]) (simp add: subscribe_def split: option.splits)
  have "stream_step e looks any_event ?f ?s" by (rule stream_step.backoff [OF v range]) (simp add: d)
  with 1 v have 2: "fails e looks i s (Suc n) ?s" by (auto intro: fails.other)
  have s: "worker_at ?s i (?v\<lparr>w_at := Sleeping d\<rparr>) (Sleeping d)" using v by simp
  from fails.other [OF 2 stream_step.wake [OF s]] s
  have "fails e looks i s (Suc n) (set_worker i ?w ?s)" by simp
  moreover have "worker_at (set_worker i ?w ?s) i ?w Subscribing" using v by simp
  ultimately show ?thesis by force
qed

lemma failing_rounds:
  assumes "worker_at s i w Subscribing" and "retryAttempt w = 0" and "n \<le> 33"
  shows "\<exists>t w'. fails e looks i s n t \<and> worker_at t i w' Subscribing \<and> retryAttempt w' = n"
  using assms(3)
proof (induction n)
  case 0
  show ?case using assms(1,2) fails.none_yet by blast
next
  case (Suc n)
  then obtain t w' where "fails e looks i s n t" "worker_at t i w' Subscribing" "retryAttempt w' = n" by auto
  from failing_round [OF this] Suc.prems show ?case by simp
qed

text \<open>With 34 failed attempts the delay overflows, so there is no way back to the subscription.\<close>

lemma overflowed_step:
  assumes "stream_step e looks evs s t" and "i < length (ws s)" and "retryAttempt (ws s ! i) = 34"
    and "w_at (ws s ! i) = Backoff \<or> w_at (ws s ! i) = Dead"
  shows "i < length (ws t) \<and> retryAttempt (ws t ! i) = 34 \<and> (w_at (ws t ! i) = Backoff \<or> w_at (ws t ! i) = Dead)"
  using assms(1)
  by cases (use assms(2-4) delay_undefined in \<open>auto simp: nth_list_update run_defs\<close>)

lemma overflowed_stays:
  assumes "(stream_step e looks evs)\<^sup>*\<^sup>* s t" and "i < length (ws s)" and "retryAttempt (ws s ! i) = 34"
    and "w_at (ws s ! i) = Backoff \<or> w_at (ws s ! i) = Dead"
  shows "i < length (ws t) \<and> retryAttempt (ws t ! i) = 34 \<and> (w_at (ws t ! i) = Backoff \<or> w_at (ws t ! i) = Dead)"
  using assms(1)
proof (induction rule: rtranclp_induct)
  case (step t u)
  then show ?case using overflowed_step [OF step.hyps(2), of i] by blast
qed (use assms in simp)

lemma overflowed_dies:
  assumes "i < length (ws s)" and "retryAttempt (ws s ! i) = 34" and "w_at (ws s ! i) = Backoff \<or> w_at (ws s ! i) = Dead"
  shows "\<exists>t. stream_step e looks evs s t \<and> w_at (ws t ! i) = Dead"
proof (cases "w_at (ws s ! i) = Dead")
  case True
  with stream_step.cancel [of e looks evs s] show ?thesis by force
next
  case False
  with assms have "worker_at s i (ws s ! i) Backoff" by simp
  from stream_step.die [OF this, of "\<lambda>n. 0"] assms(1,2) delay_undefined show ?thesis
    by (intro exI conjI) (auto simp: int63n_range_def)
qed

text \<open>C24: a worker gives up for good after 34 failed subscriptions in a row, and not before. Whatever the rest of
  the system does, as long as the subscriptions of a worker all fail, it makes at most 34 of them and has
  not panicked before the 34th; 34 can fail; then the worker never subscribes again: it can panic on the overflowed
  delay, and nothing restarts it, since the panic is recovered outside its loop.\<close>

theorem worker_dies:
  assumes "i < length (Measurements cfg)"
  shows "(\<forall>n s. fails e looks i (NewStreamingStrategy cfg b g) n s \<longrightarrow> n \<le> 34 \<and> (w_at (ws s ! i) = Dead \<longrightarrow> n = 34)) \<and>
    (\<exists>s. fails e looks i (NewStreamingStrategy cfg b g) 34 s) \<and>
    (\<forall>s. fails e looks i (NewStreamingStrategy cfg b g) 34 s \<longrightarrow>
       (\<exists>t. stream_step e looks any_event s t \<and> w_at (ws t ! i) = Dead) \<and>
       (\<forall>t. (stream_step e looks any_event)\<^sup>*\<^sup>* s t \<longrightarrow>
          (w_at (ws t ! i) = Backoff \<or> w_at (ws t ! i) = Dead) \<and>
          (w_at (ws t ! i) = Dead \<longrightarrow> (\<forall>u. (stream_step e looks any_event)\<^sup>*\<^sup>* t u \<longrightarrow> w_at (ws u ! i) = Dead))))"
proof -
  let ?s0 = "NewStreamingStrategy cfg b g" and ?w0 = "new_worker (Measurements cfg ! i)"
  have w0: "worker_at ?s0 i ?w0 Subscribing" "retryAttempt ?w0 = 0"
    using assms by (simp_all add: NewStreamingStrategy_def start_def new_worker_def)
  have inv: "i < length (ws s) \<and> retrying (ws s ! i) \<and> retryAttempt (ws s ! i) = n \<and> worker_ok (ws s ! i)"
    if "fails e looks i ?s0 n s" for n s
    using fails_count [OF that w0] reachable_ok(1) [of e looks cfg b g s] fails_run [OF that]
    by (simp add: reachable_def workers_ok_def)
  have a: "n \<le> 34 \<and> (w_at (ws s ! i) = Dead \<longrightarrow> n = 34)" if "fails e looks i ?s0 n s" for n s
    using inv [OF that] by (auto simp: worker_ok_def split: w_state.splits)
  have end34: "i < length (ws s) \<and> retryAttempt (ws s ! i) = 34 \<and> (w_at (ws s ! i) = Backoff \<or> w_at (ws s ! i) = Dead)"
    if "fails e looks i ?s0 34 s" for s
    using inv [OF that] by (auto simp: worker_ok_def split: w_state.splits)
  obtain t w where "fails e looks i ?s0 33 t" and w: "worker_at t i w Subscribing"
    using failing_rounds [OF w0, of 33] by blast
  moreover have "\<not> subscribe (\<lambda>_. False) w" by (simp add: subscribe_def split: option.splits)
  ultimately have ex: "\<exists>s. fails e looks i ?s0 34 s" using fails.refused [of e looks i ?s0 33 t w "\<lambda>_. False"] by auto
  have "\<exists>t. stream_step e looks any_event s t \<and> w_at (ws t ! i) = Dead" if "fails e looks i ?s0 34 s" for s
    using overflowed_dies end34 [OF that] by blast
  moreover have "(w_at (ws t ! i) = Backoff \<or> w_at (ws t ! i) = Dead) \<and>
      (w_at (ws t ! i) = Dead \<longrightarrow> (\<forall>u. (stream_step e looks any_event)\<^sup>*\<^sup>* t u \<longrightarrow> w_at (ws u ! i) = Dead))"
    if "fails e looks i ?s0 34 s" and t: "(stream_step e looks any_event)\<^sup>*\<^sup>* s t" for s t
    using overflowed_stays [OF t] end34 [OF that(1)] halted_stays [of e looks any_event t _ i] by metis
  ultimately show ?thesis using a ex by blast
qed

theorem worker_dies_witness:
  "\<exists>s t. fails sample_ext (\<lambda>k looked. True) 0 (NewStreamingStrategy ok_cfg 100 \<lparr>StreamConnectedGauge = [], LastDataTimestampGauge = []\<rparr>) 34 s \<and>
     stream_step sample_ext (\<lambda>k looked. True) any_event s t \<and> w_at (ws t ! 0) = Dead"
proof -
  have "0 < length (Measurements ok_cfg)" by (simp add: ok_cfg_def sample_cfg_def)
  from worker_dies [OF this] show ?thesis by blast
qed

lemma results_of_other: "(\<And>k. Itoa k \<noteq> msm) \<Longrightarrow> results_of msm hs = []"
  by (induction hs) (auto simp: results_of_def List.map_filter_simps split: option.splits sum.splits)

subsection \<open>An example run\<close>

definition sample_looks :: "int \<Rightarrow> Probe res option \<Rightarrow> bool" where
  "sample_looks k looked \<longleftrightarrow> looked = Some (Inr sample_probe)"

abbreviation no_gauges :: gauges where
  "no_gauges \<equiv> \<lparr>StreamConnectedGauge = [], LastDataTimestampGauge = []\<rparr>"

lemma sample_looks_ok: "\<not> sample_looks k None"
  by (simp add: sample_looks_def)

lemma good_ok_cfg: "good_setup sample_ext ok_cfg"
  using sample_hist_ok buckets_ok_cfg by (simp add: good_setup_def)

lemma Atoi_1001: "Atoi ''1001'' = Some 1001"
  using Atoi_Itoa [of 1001] by code_simp

lemma sample_stream_begin:
  assumes ms: "Measurements cfg = [\<lparr>M_ID = ''1001''\<rparr>]"
  shows "\<exists>s. (stream_step sample_ext looks any_event)\<^sup>*\<^sup>* (NewStreamingStrategy cfg 100 no_gauges) s \<and> connected (ws s ! 0) \<and>
    0 < length (ws s) \<and> proc s = Looking 0 sample_result \<and> handled s = []"
proof -
  let ?S = "stream_step sample_ext looks any_event" and ?i = "NewStreamingStrategy cfg 100 no_gauges"
  let ?w = "new_worker \<lparr>M_ID = ''1001''\<rparr>"
  let ?c = "run_subscribed 0 ?w ?i" and ?u = "?w\<lparr>retryAttempt := 0, w_at := Marking\<rparr>"
  let ?s = "run_marked 0 ?u ?c" and ?v = "?u\<lparr>w_at := Listening\<rparr>"
  let ?f = "set_worker 0 (?v\<lparr>w_at := Forwarding sample_result\<rparr>) ?s"
  let ?b = "proc_begin 0 sample_result
    (set_worker 0 (?v\<lparr>w_at := Forwarding sample_result, w_at := Listening\<rparr>) (?f\<lparr>pushed := pushed ?f @ [sample_result]\<rparr>))"
  note d = NewStreamingStrategy_def start_def run_subscribed_def run_marked_def add_connected_def set_gauge_def new_worker_def ms
  have "?S ?i ?c"
    by (rule stream_step.sub_ok [where i = 0 and connect = "\<lambda>_. True"]) (simp_all add: d subscribe_def Atoi_1001 del: Atoi.simps)
  moreover have "?S ?c ?s" by (rule stream_step.mark [where i = 0]) (simp_all add: d)
  moreover have "?S ?s ?f"
    by (rule stream_step.forward [where i = 0 and ev = "Msg (Some sample_result)"])
      (simp_all add: d listenForResults_def sample_result_def zero_Result_def)
  moreover have "?S ?f ?b"
    by (rule stream_step.handoff [where i = 0 and w = "?v\<lparr>w_at := Forwarding sample_result\<rparr>"]) (simp_all add: d)
  ultimately have "?S\<^sup>*\<^sup>* ?i ?b" by (meson converse_rtranclp_into_rtranclp r_into_rtranclp)
  then show ?thesis by (intro exI conjI) (auto simp: d)
qed

lemma sample_stream_run:
  "\<exists>s. reachable sample_ext sample_looks ok_cfg 100 no_gauges s \<and> connected (ws s ! 0) \<and> 0 < length (ws s) \<and>
     in_hand s = [] \<and> handled s = [(0, Some (Inr sample_probe), sample_result)]"
proof -
  have "Measurements ok_cfg = [\<lparr>M_ID = ''1001''\<rparr>]" by (simp add: ok_cfg_def sample_cfg_def)
  from sample_stream_begin [OF this, of sample_looks] obtain s where
      run: "(stream_step sample_ext sample_looks any_event)\<^sup>*\<^sup>* (NewStreamingStrategy ok_cfg 100 no_gauges) s"
    and s: "connected (ws s ! 0)" "0 < length (ws s)" "proc s = Looking 0 sample_result" "handled s = []" by blast
  from stream_step.found [OF s(3), of sample_looks "Some (Inr sample_probe)" sample_ext]
  have "stream_step sample_ext sample_looks any_event s (proc_finish sample_ext 0 (Some (Inr sample_probe)) sample_result s)"
    by (simp add: sample_looks_def)
  with run have "reachable sample_ext sample_looks ok_cfg 100 no_gauges
      (proc_finish sample_ext 0 (Some (Inr sample_probe)) sample_result s)"
    unfolding reachable_def by (rule rtranclp.rtrancl_into_rtrancl)
  with s show ?thesis
    by (intro exI [of _ "proc_finish sample_ext 0 (Some (Inr sample_probe)) sample_result s"]) simp
qed

text \<open>C36: an id that is not written the way \<open>strconv.Itoa\<close> prints it (\<open>+1001\<close>, \<open>01001\<close>) is accepted by
  \<open>subscribe\<close>, so its worker connects and its results are processed, but a request for the configured id never
  finds them.\<close>

theorem noncanonical_id_lost:
  assumes "reachable e looks cfg b g s" and "good_setup e cfg"
    and "Atoi mid = Some n" and "\<And>k. Itoa k \<noteq> mid"
  shows "(\<forall>w connect. M_ID (w_measurement w) = mid \<longrightarrow> subscribe connect w = connect n) \<and>
    stream_MeasurementResults (strat s) [mid] = Inr []"
proof -
  have "map_ok e cfg s" using reachable_ok(4) [OF assms(1,2)] ..
  then show ?thesis
    using results_of_other [OF assms(4)] assms(3)
    by (simp add: subscribe_def map_ok_def stream_MeasurementResults_def stream_spec_def List.map_filter_simps)
qed

theorem noncanonical_id_lost_witness:
  "\<exists>s. reachable sample_ext sample_looks ok_cfg 100 no_gauges s \<and>
     handled s \<noteq> [] \<and> stream_MeasurementResults (strat s) [''+1001''] = Inr []"
proof -
  obtain s where s: "reachable sample_ext sample_looks ok_cfg 100 no_gauges s" and "handled s \<noteq> []"
    using sample_stream_run by force
  have "Atoi ''+1001'' = Some 1001" by code_simp
  moreover have "Itoa k \<noteq> ''+1001''" for k
    using utoa_hd_digit [of "nat k"] is_digit_no_sign by (auto simp: Itoa_def)
  ultimately have "stream_MeasurementResults (strat s) [''+1001''] = Inr []"
    using noncanonical_id_lost [OF s good_ok_cfg] by blast
  with s \<open>handled s \<noteq> []\<close> show ?thesis by blast
qed

theorem stream_refines_witness:
  "\<exists>s. reachable sample_ext sample_looks ok_cfg 100 no_gauges s \<and>
     pushed s = [sample_result] @ in_hand s @ queue s \<and>
     stream_MeasurementResults (strat s) [''1001''] = Inr (List.map_filter (\<lambda>msm. stream_spec sample_ext ok_cfg msm
       (results_of msm [(0, Some (Inr sample_probe), sample_result)])) [''1001''])"
proof -
  obtain s where s: "reachable sample_ext sample_looks ok_cfg 100 no_gauges s"
    and h: "handled s = [(0, Some (Inr sample_probe), sample_result)]"
    using sample_stream_run by blast
  from stream_refines [OF s good_ok_cfg] h s sample_looks_ok show ?thesis by (intro exI [of _ s]) simp
qed

theorem stream_losses_witness:
  "\<exists>s. reachable sample_ext sample_looks ok_cfg 100 no_gauges s \<and> sample_result \<in># mset (pushed s)"
proof -
  obtain s where s: "reachable sample_ext sample_looks ok_cfg 100 no_gauges s"
    and h: "handled s = [(0, Some (Inr sample_probe), sample_result)]"
    using sample_stream_run by blast
  have "mset (pushed s) = mset (handled_results s) + mset (in_hand s) + mset (dropped s) + mset (queue s)"
    using stream_losses [OF s] by blast
  with s h show ?thesis by (intro exI [of _ s]) simp
qed

end
