(* ===== verification/Stream_Progress.thy ===== *)
theory Stream_Progress
  imports Stream_Strategy
begin

text \<open>
  Progress of the streaming strategy wherever it runs. The locale \<open>stream_progress\<close> states what is needed of the
  surroundings: the workers and the processor can take their steps, and a lookup of a probe can end. Then the
  channel can always be emptied, a worker blocked on its send can always go on, and after cancellation
  every worker can leave its loop. It is interpreted here on the strategy by itself, with streams that yield nothing more,
  and in \<open>Process\<close> on the running process.
\<close>

text \<open>The steps of the strategy for which nothing has to come from outside: no event of a stream and no end of a lookup.\<close>

abbreviation no_event :: "stream_event \<Rightarrow> bool" where
  "no_event \<equiv> \<lambda>ev. False"

abbreviation own_step :: "ext \<Rightarrow> system \<Rightarrow> system \<Rightarrow> bool" where
  "own_step e \<equiv> stream_step e (\<lambda>k looked. False) no_event"

lemma stream_step_mono:
  assumes "stream_step e looks evs s t" and "\<And>k l. looks k l \<Longrightarrow> looks' k l" and "\<And>ev. evs ev \<Longrightarrow> evs' ev"
  shows "stream_step e looks' evs' s t"
  using assms
proof (induction rule: stream_step.induct)
  case (discard_sender s i w m)
  then show ?case by (intro stream_step.discard_sender) auto
next
  case (handoff s i w m now)
  then show ?case by (intro stream_step.handoff) auto
qed (blast intro: stream_step.intros)+

definition proc_work :: "system \<Rightarrow> nat" where
  "proc_work s = 3 * length (queue s) + (case proc s of Looking now r \<Rightarrow> 2 | Pausing \<Rightarrow> 1 | Receiving \<Rightarrow> 0)"

lemma proc_work_finish: "proc s = Looking now r \<Longrightarrow> proc_work (proc_finish e now looked r s) < proc_work s"
  by (rule proc_finish_cases [of e looked r s now]) (simp add: proc_work_def)

text \<open>How far a worker is from leaving its loop once the context is done.\<close>

fun worker_rank :: "w_state \<Rightarrow> nat" where
  "worker_rank (Forwarding m) = 6"
| "worker_rank Marking = 6"
| "worker_rank Listening = 5"
| "worker_rank Unmarking = 4"
| "worker_rank Subscribing = 4"
| "worker_rank Backoff = 3"
| "worker_rank (Sleeping d) = 2"
| "worker_rank Stopped = 0"
| "worker_rank Dead = 0"

text \<open>The workers that are past saving when their next subscription fails: the delay will overflow before they see the context.\<close>

definition fated :: "worker \<Rightarrow> bool" where
  "fated w \<longleftrightarrow> (case w_at w of Subscribing \<Rightarrow> 33 \<le> retryAttempt w | Backoff \<Rightarrow> 34 \<le> retryAttempt w | Dead \<Rightarrow> True | _ \<Rightarrow> False)"

definition ranks :: "system \<Rightarrow> nat" where
  "ranks s = sum_list (map (\<lambda>w. worker_rank (w_at w)) (ws s))"

lemma ranks_update:
  assumes "i < length (ws s)" and "ws t = (ws s)[i := w']" and "worker_rank (w_at w') < worker_rank (w_at (ws s ! i))"
  shows "ranks t < ranks s"
proof -
  let ?f = "\<lambda>w. worker_rank (w_at w)"
  have "?f (ws s ! i) \<le> sum_list (map ?f (ws s))" using elem_le_sum_list [of i "map ?f (ws s)"] assms(1) by simp
  with assms show ?thesis by (simp add: ranks_def sum_list_update_nat)
qed

locale stream_progress =
  fixes e :: ext and reach :: "system \<Rightarrow> bool"
  assumes step: "reach s \<Longrightarrow> own_step e s t \<Longrightarrow> reach t"
    and lookup: "reach s \<Longrightarrow> proc s = Looking now r \<Longrightarrow> \<exists>looked. reach (proc_finish e now looked r s)"
begin

lemma drain:
  assumes "reach s"
  shows "\<exists>t. reach t \<and> queue t = [] \<and> proc t = Receiving \<and> ws t = ws s \<and> ctx_done t = ctx_done s \<and> pushed t = pushed s"
  using assms
proof (induction "proc_work s" arbitrary: s rule: less_induct)
  case less
  have next_state: ?case if "reach t" and "proc_work t < proc_work s" and "ws t = ws s" "ctx_done t = ctx_done s" "pushed t = pushed s" for t
    using less.hyps [OF that(2,1)] that(3-5) by simp
  show ?case
  proof (cases "proc s")
    case (Looking now r)
    from lookup [OF less.prems this] obtain looked where "reach (proc_finish e now looked r s)" by blast
    then show ?thesis by (rule next_state) (simp_all add: proc_work_finish [OF Looking])
  next
    case Pausing
    show ?thesis
    proof (cases "queue s")
      case Nil
      show ?thesis by (rule next_state [OF step [OF less.prems stream_step.resume [OF Pausing Nil]]])
        (simp_all add: proc_resume_def proc_work_def Pausing Nil)
    next
      case (Cons r rs)
      show ?thesis by (rule next_state [OF step [OF less.prems stream_step.discard [OF Pausing Cons]]])
        (simp_all add: proc_discard_def proc_work_def Pausing Cons)
    qed
  next
    case Receiving
    show ?thesis
    proof (cases "queue s")
      case Nil
      with Receiving less.prems show ?thesis by blast
    next
      case (Cons r rs)
      show ?thesis by (rule next_state [OF step [OF less.prems stream_step.process [OF Receiving Cons, where now = 0]]])
        (simp_all add: proc_work_def Receiving Cons)
    qed
  qed
qed

text \<open>A worker that waits for room in the channel can hand its result over.\<close>

lemma unblock:
  assumes "reach s" and "worker_at s i w (Forwarding m)"
  shows "\<exists>t. reach t \<and> ws t = (ws s)[i := w\<lparr>w_at := Listening\<rparr>] \<and> ctx_done t = ctx_done s \<and> pushed t = pushed s @ [m]"
proof -
  obtain u where u: "reach u" "queue u = []" "proc u = Receiving" "ws u = ws s" "ctx_done u = ctx_done s" "pushed u = pushed s"
    using drain [OF assms(1)] by blast
  have "worker_at u i w (Forwarding m)" using assms(2) u(4) by simp
  from step [OF u(1) stream_step.handoff [OF this u(2,3), where now = 0]] u(4-6) show ?thesis
    by (intro exI conjI) (assumption, simp_all)
qed

lemma worker_closer:
  assumes "reach s" and "ctx_done s" and "i < length (ws s)" and "\<not> halted (ws s ! i)" and "worker_ok (ws s ! i)"
  shows "\<exists>t w'. reach t \<and> ctx_done t \<and> ws t = (ws s)[i := w'] \<and> worker_rank (w_at w') < worker_rank (w_at (ws s ! i)) \<and>
    worker_ok w' \<and> (fated w' \<longrightarrow> fated (ws s ! i))"
proof -
  let ?w = "ws s ! i"
  have one: ?thesis if "own_step e s t" and "ctx_done t" and "ws t = (ws s)[i := w']"
      and "worker_rank (w_at w') < worker_rank (w_at ?w)" and "worker_ok w'" and "fated w' \<longrightarrow> fated ?w" for t w'
    using step [OF assms(1) that(1)] that(2-6) by blast
  have at: "worker_at s i ?w x" if "w_at ?w = x" for x using assms(3) that by simp
  note ok = assms(2,5)
  show ?thesis
  proof (cases "w_at ?w")
    case Subscribing
    have "\<not> subscribe (\<lambda>_. False) ?w" by (simp add: subscribe_def split: option.splits)
    from stream_step.sub_fail [OF at [OF Subscribing] this] Subscribing ok show ?thesis
      by (intro one [where w' = "?w\<lparr>retryAttempt := retryAttempt ?w + 1, w_at := Backoff\<rparr>"])
        (assumption, auto simp: run_failed_def worker_ok_def fated_def)
  next
    case Marking
    from stream_step.mark [OF at [OF Marking]] Marking ok show ?thesis
      by (intro one [where w' = "?w\<lparr>w_at := Listening\<rparr>"]) (assumption, auto simp: run_defs worker_ok_def fated_def)
  next
    case Listening
    from stream_step.leave_done [OF at [OF Listening] assms(2)] Listening ok show ?thesis
      by (intro one [where w' = "?w\<lparr>w_at := Unmarking\<rparr>"]) (assumption, auto simp: run_defs worker_ok_def fated_def)
  next
    case (Forwarding m)
    from unblock [OF assms(1) at [OF Forwarding]] obtain t where
      "reach t" "ws t = (ws s)[i := ?w\<lparr>w_at := Listening\<rparr>]" "ctx_done t = ctx_done s" by blast
    with Forwarding ok show ?thesis
      by (intro exI [of _ t] exI [of _ "?w\<lparr>w_at := Listening\<rparr>"]) (auto simp: worker_ok_def fated_def)
  next
    case Unmarking
    from stream_step.unmark [OF at [OF Unmarking]] Unmarking ok show ?thesis
      by (intro one [where w' = "?w\<lparr>retryAttempt := retryAttempt ?w + 1, w_at := Backoff\<rparr>"])
        (assumption, auto simp: run_defs worker_ok_def fated_def)
  next
    case Backoff
    have range: "int63n_range (\<lambda>n. 0)" by (simp add: int63n_range_def)
    show ?thesis
    proof (cases "getRetryDelay (\<lambda>n. 0) (retryAttempt ?w)")
      case None
      with delay_defined [OF range] have "33 < retryAttempt ?w" by (meson not_le)
      with stream_step.die [OF at [OF Backoff] range None] Backoff ok show ?thesis
        by (intro one [where w' = "?w\<lparr>w_at := Dead\<rparr>"]) (assumption, auto simp: worker_ok_def fated_def)
    next
      case (Some d)
      with delay_undefined have "retryAttempt ?w \<noteq> 34" by auto
      with stream_step.backoff [OF at [OF Backoff] range Some] Backoff ok show ?thesis
        by (intro one [where w' = "?w\<lparr>w_at := Sleeping d\<rparr>"]) (assumption, auto simp: worker_ok_def fated_def)
    qed
  next
    case (Sleeping d)
    from stream_step.stop [OF at [OF Sleeping] assms(2)] Sleeping ok show ?thesis
      by (intro one [where w' = "?w\<lparr>w_at := Stopped\<rparr>"]) (assumption, auto simp: worker_ok_def fated_def)
  qed (use assms(4) in auto)
qed

lemma all_halt:
  assumes "reach s" and "ctx_done s" and "\<forall>w \<in> set (ws s). worker_ok w"
  shows "\<exists>t. reach t \<and> length (ws t) = length (ws s) \<and>
    (\<forall>i < length (ws s). halted (ws t ! i) \<and> (fated (ws t ! i) \<longrightarrow> fated (ws s ! i)))"
  using assms
proof (induction "ranks s" arbitrary: s rule: less_induct)
  case less
  show ?case
  proof (cases "\<forall>i < length (ws s). halted (ws s ! i)")
    case True
    with less.prems show ?thesis by blast
  next
    case False
    then obtain i where i: "i < length (ws s)" "\<not> halted (ws s ! i)" by blast
    with less.prems(3) have "worker_ok (ws s ! i)" by simp
    from worker_closer [OF less.prems(1,2) i this] obtain t w' where t: "reach t" "ctx_done t" "ws t = (ws s)[i := w']"
      and w': "worker_rank (w_at w') < worker_rank (w_at (ws s ! i))" "worker_ok w'" "fated w' \<longrightarrow> fated (ws s ! i)" by blast
    have "\<forall>w \<in> set (ws t). worker_ok w" unfolding t(3) by (rule ball_set_update [OF less.prems(3) w'(2)])
    from less.hyps [OF ranks_update [OF i(1) t(3) w'(1)] t(1,2) this] obtain u where u: "reach u"
      "length (ws u) = length (ws t)" "\<forall>k < length (ws t). halted (ws u ! k) \<and> (fated (ws u ! k) \<longrightarrow> fated (ws t ! k))" by blast
    have "fated (ws t ! k) \<longrightarrow> fated (ws s ! k)" for k
      using w'(3) i(1) by (cases "k = i") (simp_all add: t(3))
    with u t(3) show ?thesis by (intro exI [of _ u]) simp
  qed
qed

end

section \<open>Shutdown\<close>

interpretation quiet: stream_progress e
    "\<lambda>t. (\<forall>k. \<exists>looked. looks k looked) \<and> (stream_step e looks no_event)\<^sup>*\<^sup>* s t" for e looks s
proof
  let ?S = "stream_step e looks no_event"
  fix t u assume "(\<forall>k. \<exists>looked. looks k looked) \<and> ?S\<^sup>*\<^sup>* s t" and "own_step e t u"
  moreover from this(2) have "?S t u" by (rule stream_step_mono) simp_all
  ultimately show "(\<forall>k. \<exists>looked. looks k looked) \<and> ?S\<^sup>*\<^sup>* s u" by (blast intro: rtranclp.rtrancl_into_rtrancl)
next
  let ?S = "stream_step e looks no_event"
  fix t now r assume t: "(\<forall>k. \<exists>looked. looks k looked) \<and> ?S\<^sup>*\<^sup>* s t" and l: "proc t = Looking now r"
  then obtain looked where "looks (PrbId r) looked" by blast
  from stream_step.found [where looks = looks and looked = looked and evs = no_event, OF l this] t
  show "\<exists>looked. (\<forall>k. \<exists>looked. looks k looked) \<and> ?S\<^sup>*\<^sup>* s (proc_finish e now looked r t)"
    by (blast intro: rtranclp.rtrancl_into_rtrancl)
qed

lemma halted_done:
  assumes "reachable e looks cfg b g t" and "\<forall>w \<in> set (ws t). halted w" and "(stream_step e looks any_event)\<^sup>*\<^sup>* t u"
  shows "ws u = ws t \<and> connectedWorkers (strat u) = 0 \<and> \<not> stream_IsHealthy now (strat u)"
proof -
  from reachable_ok(1) [OF assms(1)] reachable_ok(1) [OF reachable_steps [OF assms(1,3)]]
  have ms: "map w_measurement (ws u) = map w_measurement (ws t)"
    and n: "connectedWorkers (strat u) = count_connected (ws u)" by (simp_all add: workers_ok_def)
  from halted_stays [OF assms(3)] assms(2) have ws: "ws u = ws t"
    by (intro nth_equalityI) (simp_all add: map_eq_imp_length_eq [OF ms])
  with n halted_count [OF assms(2)] show ?thesis by (simp add: stream_IsHealthy_def)
qed

text \<open>C18: shutdown. From every reachable state in which the context is done, and without another event of a stream, every
  worker can return from its loop, also one that waits for results or is blocked on a full channel; only a worker that already
  had 33 failed attempts may end by the panic of its delay instead. From then on, whatever the streams yield, no worker does
  anything, none counts as connected and the strategy is not healthy.\<close>

theorem shutdown_stops_workers:
  assumes "reachable e looks cfg b g s" and "ctx_done s" and "\<And>k. \<exists>looked. looks k looked"
  shows "\<exists>t. (stream_step e looks no_event)\<^sup>*\<^sup>* s t \<and> length (ws t) = length (ws s) \<and>
    (\<forall>i < length (ws s). w_at (ws t ! i) = Stopped \<or> w_at (ws t ! i) = Dead \<and> 33 \<le> retryAttempt (ws s ! i)) \<and>
    (\<forall>u now. (stream_step e looks any_event)\<^sup>*\<^sup>* t u \<longrightarrow>
       ws u = ws t \<and> connectedWorkers (strat u) = 0 \<and> \<not> stream_IsHealthy now (strat u))"
proof -
  have ok: "\<forall>w \<in> set (ws s). worker_ok w" using reachable_ok(1) [OF assms(1)] by (simp add: workers_ok_def)
  obtain t where t: "(stream_step e looks no_event)\<^sup>*\<^sup>* s t" and len: "length (ws t) = length (ws s)"
    and h: "\<forall>i < length (ws s). halted (ws t ! i) \<and> (fated (ws t ! i) \<longrightarrow> fated (ws s ! i))"
    using quiet.all_halt [of looks e s s, OF _ assms(2) ok] assms(3) by auto
  have any: "(stream_step e looks any_event)\<^sup>*\<^sup>* s t"
    by (rule rtranclp_mono [THEN predicate2D, OF _ t]) (auto intro: stream_step_mono)
  have "33 \<le> retryAttempt (ws s ! i)" if "i < length (ws s)" and "w_at (ws t ! i) = Dead" for i
  proof -
    have "worker_ok (ws s ! i)" "fated (ws s ! i)" using ok h that by (auto simp: fated_def)
    then show ?thesis by (auto simp: worker_ok_def fated_def split: w_state.splits)
  qed
  with h have "\<forall>i < length (ws s). w_at (ws t ! i) = Stopped \<or> w_at (ws t ! i) = Dead \<and> 33 \<le> retryAttempt (ws s ! i)"
    by blast
  moreover have "\<forall>w \<in> set (ws t). halted w" using h len by (auto simp: in_set_conv_nth)
  from halted_done [OF reachable_steps [OF assms(1) any] this]
  have "\<forall>u now. (stream_step e looks any_event)\<^sup>*\<^sup>* t u \<longrightarrow>
       ws u = ws t \<and> connectedWorkers (strat u) = 0 \<and> \<not> stream_IsHealthy now (strat u)" by blast
  ultimately show ?thesis using t len by blast
qed

theorem shutdown_stops_workers_witness:
  "\<exists>s t. reachable sample_ext sample_looks ok_cfg 100 no_gauges s \<and> connected (ws s ! 0) \<and> ctx_done s \<and>
     (stream_step sample_ext sample_looks no_event)\<^sup>*\<^sup>* s t \<and> w_at (ws t ! 0) = Stopped"
proof -
  obtain s where s: "reachable sample_ext sample_looks ok_cfg 100 no_gauges s" "connected (ws s ! 0)" "0 < length (ws s)"
    using sample_stream_run by blast
  let ?s = "s\<lparr>ctx_done := True\<rparr>"
  have r: "reachable sample_ext sample_looks ok_cfg 100 no_gauges ?s"
    using s(1) stream_step.cancel unfolding reachable_def by (rule rtranclp.rtrancl_into_rtrancl)
  have "worker_ok (ws s ! 0)" using reachable_ok(1) [OF s(1)] s(3) by (simp add: workers_ok_def)
  with s(2) have z: "retryAttempt (ws s ! 0) = 0" by (auto simp: worker_ok_def split: w_state.splits)
  have looks: "\<exists>looked. sample_looks k looked" for k by (simp add: sample_looks_def)
  obtain t where t: "(stream_step sample_ext sample_looks no_event)\<^sup>*\<^sup>* ?s t"
    and "\<forall>i < length (ws ?s). w_at (ws t ! i) = Stopped \<or> w_at (ws t ! i) = Dead \<and> 33 \<le> retryAttempt (ws ?s ! i)"
    using shutdown_stops_workers [OF r _ looks] by auto
  with z s(3) have "w_at (ws t ! 0) = Stopped" by auto
  with r t s(2) show ?thesis by (intro exI [of _ ?s] exI [of _ t]) simp
qed

end
