(* ===== verification/Process.thy ===== *)
theory Process
  imports Request_Strategy Stream_Progress
begin

text \<open>
  The running process: the streaming strategy, any number of scrapes by request strategies, the cache cleaner and the
  collection of what the strategies return. They share the probe cache of package \<open>atlas\<close>. A step of the process is a
  step of one of them on the shared cache, or the panic or run-time error of one of them that ends all. The lemmas project a run of
  the process to runs of its components: what each of them
  relies on (the cache holds answers of the API) the others guarantee.
\<close>

section \<open>The goroutine of the cleaner\<close>

text \<open>
  \<open>startCacheCleanupFunc\<close>: it creates its ticker, which panics for an interval that is not positive, then waits in its
  select, iterates over the map without the lock, or is about to delete, under the lock, the keys it has found expired. The
  iteration is taken to read the map at its end. The context is not part of this state: the cleaner may return
  whenever it waits.
\<close>

datatype cleaner_state = Starting | Waiting | Scanning | Sweeping "int list" | Quit | NoTicker

inductive cleaner_step :: "duration \<Rightarrow> Cache \<Rightarrow> cleaner_state \<Rightarrow> Cache \<Rightarrow> cleaner_state \<Rightarrow> bool" for d c where
  ticker: "0 < d \<Longrightarrow> cleaner_step d c Starting c Waiting"
| no_ticker: "d \<le> 0 \<Longrightarrow> cleaner_step d c Starting c NoTicker"
| tick: "cleaner_step d c Waiting c Scanning"
| scanned: "cleaner_step d c Scanning c (Sweeping (CleanUp_scan clock c))"
| swept: "cleaner_step d c (Sweeping ks) (fst (CleanUp_delete ks c)) Waiting"
| returns: "cleaner_step d c Waiting c Quit"

section \<open>The lookup of the stream's processor\<close>

text \<open>
  \<open>probeForID\<close>, called by the processor of the stream, on the shared cache: a panic while there is no cache; a hit;
  a miss, after which the API is asked (the flag); its answer, which is added; its error. Other goroutines run between the miss and
  the answer.
\<close>

inductive lookup_step ::
    "ext \<Rightarrow> (int \<Rightarrow> Probe \<Rightarrow> bool) \<Rightarrow> Cache option \<Rightarrow> bool \<Rightarrow> system \<Rightarrow> Cache option \<Rightarrow> bool \<Rightarrow> system \<Rightarrow> bool"
  for e ans where
  nil_cache: "proc s = Looking now r \<Longrightarrow> lookup_step e ans None f s None f (proc_finish e now None r s)"
| hit: "proc s = Looking now r \<Longrightarrow> Cache_Get t (PrbId r) c = Some pr \<Longrightarrow>
    lookup_step e ans (Some c) False s (Some c) False (proc_finish e now (Some (Inr pr)) r s)"
| miss: "proc s = Looking now r \<Longrightarrow> Cache_Get t (PrbId r) c = None \<Longrightarrow>
    lookup_step e ans (Some c) False s (Some c) True s"
| fetched: "proc s = Looking now r \<Longrightarrow> answers api ans \<Longrightarrow> probe_Get api (PrbId r) = Inr pr \<Longrightarrow>
    lookup_step e ans (Some c) True s (Some (Cache_Add t (PrbId r) pr c)) False (proc_finish e now (Some (Inr pr)) r s)"
| failed: "proc s = Looking now r \<Longrightarrow> answers api ans \<Longrightarrow> probe_Get api (PrbId r) = Inl err \<Longrightarrow>
    lookup_step e ans (Some c) True s (Some c) False (proc_finish e now (Some (Inl (lookup_error (PrbId r) err))) r s)"

section \<open>The state and the steps\<close>

text \<open>
  A job is a call of \<open>MeasurementResults\<close> of a request strategy. \<open>fetching\<close>: the processor of the stream has missed the
  cache and asks the API. \<open>fate\<close>: the process has been ended by the run time, which found a map written while it was
  iterated over, or by a panic in \<open>Collect\<close>.
\<close>

record job =
  j_strategy :: requestStrategy
  j_ids :: "string list"
  j_scrape :: scrape

datatype ending = MapFatal | CollectPanic

record process =
  shared :: "Cache option"
  cleaner :: cleaner_state
  streams :: "system option"
  fetching :: bool
  jobs :: "job list"
  fate :: "ending option"

text \<open>After \<open>main\<close> has chosen the strategy, and before \<open>startServer\<close> initialises the cache and starts the cleaner.\<close>

definition process_init :: "Config \<Rightarrow> gauges \<Rightarrow> process" where
  "process_init cfg g = \<lparr>shared = None, cleaner = Starting,
     streams = (if Streaming_Enabled cfg then Some (NewStreamingStrategy cfg (Streaming_BufferSize cfg) g) else None),
     fetching = False, jobs = [], fate = None\<rparr>"

text \<open>The ids of a request for metrics that a request strategy serves: one ad hoc, or the configured ones.\<close>

definition requested_ids :: "Config \<Rightarrow> string list \<Rightarrow> bool" where
  "requested_ids cfg ids \<longleftrightarrow>
     (\<exists>mid. mid \<noteq> [] \<and> ids = [mid]) \<or> (\<not> Streaming_Enabled cfg \<and> ids = MeasurementIDs cfg \<and> ids \<noteq> [])"

definition new_job :: "(string \<Rightarrow> Result option list res) \<Rightarrow> Config \<Rightarrow> string list \<Rightarrow> Cache \<Rightarrow> job" where
  "new_job http cfg ids c =
     \<lparr>j_strategy = NewRequestStrategy http cfg (Worker_Count cfg), j_ids = ids, j_scrape = scrape_init ids c\<rparr>"

text \<open>The goroutines that are about to add the answer for the probe \<open>k\<close> to the cache: a consumer of a lookup that is
  under way, or of one whose caller has gone, or the processor of the stream.\<close>

fun fetcher_pipes :: "fetcher \<Rightarrow> pipe list" where
  "fetcher_pipes (LookingUp mes res q) = [q]"
| "fetcher_pipes _ = []"

definition scrape_pipes :: "scrape \<Rightarrow> pipe list" where
  "scrape_pipes s = concat (map fetcher_pipes (fetchers s)) @ leaks s"

definition adding :: "process \<Rightarrow> int \<Rightarrow> bool" where
  "adding p k \<longleftrightarrow> (\<exists>j \<in> set (jobs p). \<exists>q \<in> set (scrape_pipes (j_scrape j)). Fetching k \<in> set (consumers q)) \<or>
     fetching p \<and> (case streams p of
        None \<Rightarrow> False
      | Some s \<Rightarrow> (case proc s of Looking now r \<Rightarrow> PrbId r = k | _ \<Rightarrow> False))"

text \<open>What a scrape may collect: the measurements a request strategy has returned, or those of the stream.\<close>

definition collectable :: "Config \<Rightarrow> process \<Rightarrow> Measurement \<Rightarrow> bool" where
  "collectable cfg p m \<longleftrightarrow>
     (\<exists>j \<in> set (jobs p). \<exists>ms. gathered (j_scrape j) = Gathered (Inr ms) \<and> m \<in> set ms) \<or>
     shared p \<noteq> None \<and> (case streams p of
        None \<Rightarrow> False
      | Some s \<Rightarrow> \<exists>k \<in> set (MeasurementIDs cfg). map_of (measurements (strat s)) k = Some m)"

text \<open>
  The steps. \<open>map_fatal\<close>: the cleaner iterates over the map while another goroutine writes to it, and the run time notices.
  \<open>collect_panic\<close>: the registry calls \<open>Collect\<close> in a goroutine of its own, so nothing recovers its panic.
\<close>

inductive process_step :: "ext \<Rightarrow> error \<Rightarrow> (int \<Rightarrow> Probe \<Rightarrow> bool) \<Rightarrow> Config \<Rightarrow> process \<Rightarrow> process \<Rightarrow> bool"
  for e ctx_err ans cfg where
  init_cache: "shared p = None \<Longrightarrow> process_step e ctx_err ans cfg p (p\<lparr>shared := InitCache (Cache_TTL cfg)\<rparr>)"
| clean: "shared p = Some c \<Longrightarrow> cleaner_step (Cache_Cleanup cfg) c (cleaner p) c' k \<Longrightarrow>
    process_step e ctx_err ans cfg p (p\<lparr>shared := Some c', cleaner := k\<rparr>)"
| serve: "shared p = Some c \<Longrightarrow> requested_ids cfg ids \<Longrightarrow>
    process_step e ctx_err ans cfg p (p\<lparr>jobs := jobs p @ [new_job http cfg ids c]\<rparr>)"
| scrape: "shared p = Some c \<Longrightarrow> i < length (jobs p) \<Longrightarrow> jobs p ! i = j \<Longrightarrow>
    scrape_step e ctx_err ans (j_strategy j) ((j_scrape j)\<lparr>scache := c\<rparr>) t \<Longrightarrow>
    process_step e ctx_err ans cfg p (p\<lparr>shared := Some (scache t), jobs := (jobs p)[i := j\<lparr>j_scrape := t\<rparr>]\<rparr>)"
| stream: "streams p = Some s \<Longrightarrow> stream_step e (\<lambda>k looked. False) any_event s t \<Longrightarrow>
    process_step e ctx_err ans cfg p (p\<lparr>streams := Some t\<rparr>)"
| lookup: "streams p = Some s \<Longrightarrow> lookup_step e ans (shared p) (fetching p) s c f t \<Longrightarrow>
    process_step e ctx_err ans cfg p (p\<lparr>shared := c, fetching := f, streams := Some t\<rparr>)"
| map_fatal: "shared p = Some c \<Longrightarrow> cleaner p = Scanning \<Longrightarrow> adding p k \<Longrightarrow> answers api ans \<Longrightarrow>
    probe_Get api k = Inr pr \<Longrightarrow> process_step e ctx_err ans cfg p (p\<lparr>fate := Some MapFatal\<rparr>)"
| collect_panic: "collectable cfg p m \<Longrightarrow> visits_all visit \<Longrightarrow> Measurement_Collect e (visit m) clock vars m = None \<Longrightarrow>
    process_step e ctx_err ans cfg p (p\<lparr>fate := Some CollectPanic\<rparr>)"

text \<open>A panic that nothing recovers and a fatal error of the run time end the process and with it every goroutine.\<close>

definition alive :: "process \<Rightarrow> bool" where
  "alive p \<longleftrightarrow> cleaner p \<noteq> NoTicker \<and> fate p = None \<and> (\<forall>j \<in> set (jobs p). gathered (j_scrape j) \<noteq> Crashed)"

definition process_run :: "ext \<Rightarrow> error \<Rightarrow> (int \<Rightarrow> Probe \<Rightarrow> bool) \<Rightarrow> Config \<Rightarrow> process \<Rightarrow> process \<Rightarrow> bool" where
  "process_run e ctx_err ans cfg = (\<lambda>p p'. alive p \<and> process_step e ctx_err ans cfg p p')\<^sup>*\<^sup>*"

definition process_reachable ::
    "ext \<Rightarrow> error \<Rightarrow> (int \<Rightarrow> Probe \<Rightarrow> bool) \<Rightarrow> Config \<Rightarrow> gauges \<Rightarrow> process \<Rightarrow> bool" where
  "process_reachable e ctx_err ans cfg g = process_run e ctx_err ans cfg (process_init cfg g)"

section \<open>Projections\<close>

text \<open>How the lookups of the stream's processor may end in the process.\<close>

definition stream_looks :: "(int \<Rightarrow> Probe \<Rightarrow> bool) \<Rightarrow> int \<Rightarrow> Probe res option \<Rightarrow> bool" where
  "stream_looks ans k looked = (case looked of Some (Inr p) \<Rightarrow> ans k p | _ \<Rightarrow> True)"

lemma stream_looks_simps [simp]:
  "stream_looks ans k None" "stream_looks ans k (Some (Inl err))" "stream_looks ans k (Some (Inr p)) = ans k p"
  by (simp_all add: stream_looks_def)

lemma reachable_step: "reachable e looks cfg b g s \<Longrightarrow> stream_step e looks any_event s t \<Longrightarrow> reachable e looks cfg b g t"
  unfolding reachable_def by (rule rtranclp.rtrancl_into_rtrancl)

lemma lookup_projection:
  assumes "lookup_step e ans c f s c' f' t" and "\<And>x. c = Some x \<Longrightarrow> coherent ans x"
  shows "t = s \<or> stream_step e (stream_looks ans) any_event s t"
  using assms
proof (induction rule: lookup_step.induct)
  case (nil_cache s now r f)
  from stream_step.found [OF nil_cache(1), of "stream_looks ans" None] show ?case by simp
next
  case (hit s now r t c pr)
  then have "ans (PrbId r) pr" using coherent_Get by blast
  with stream_step.found [OF hit(1), of "stream_looks ans" "Some (Inr pr)"] show ?case by simp
next
  case (fetched s now r api pr c t)
  then have "ans (PrbId r) pr" by (simp add: answers_def)
  with stream_step.found [OF fetched(1), of "stream_looks ans" "Some (Inr pr)"] show ?case by simp
next
  case (failed s now r api err c)
  from stream_step.found [OF failed(1), of "stream_looks ans" "Some (Inl (lookup_error (PrbId r) err))"] show ?case by simp
qed simp

text \<open>Every step of the process is a step of the stream or leaves the stream as it is.\<close>

lemma stream_projection:
  assumes "process_step e ctx_err ans cfg p p'" and "streams p = Some s"
    and "\<And>c. shared p = Some c \<Longrightarrow> coherent ans c"
  shows "\<exists>s'. streams p' = Some s' \<and> (s' = s \<or> stream_step e (stream_looks ans) any_event s s')"
  using assms(1)
proof cases
  case (stream s t)
  then show ?thesis using assms(2) stream_step_mono [OF stream(3), of "stream_looks ans" any_event] by simp
next
  case (lookup s c f t)
  then show ?thesis using assms(2) lookup_projection [OF lookup(3) assms(3)] by auto
qed (use assms(2) in simp_all)

subsection \<open>The cache\<close>

definition shared_ok :: "(int \<Rightarrow> Probe \<Rightarrow> bool) \<Rightarrow> Config \<Rightarrow> Cache \<Rightarrow> bool" where
  "shared_ok ans cfg c \<longleftrightarrow> coherent ans c \<and> Cache_wf c \<and> ttl c = Cache_TTL cfg"

lemma shared_ok_New: "shared_ok ans cfg (NewCache (Cache_TTL cfg))"
  by (simp add: shared_ok_def)

lemma shared_ok_Add: "shared_ok ans cfg c \<Longrightarrow> ans k p \<Longrightarrow> shared_ok ans cfg (Cache_Add now k p c)"
  by (simp add: shared_ok_def coherent_Add)

lemma shared_ok_delete: "shared_ok ans cfg c \<Longrightarrow> shared_ok ans cfg (fst (CleanUp_delete ks c))"
  by (auto simp: shared_ok_def coherent_def CleanUp_delete_def Cache_wf_def gomap_simps split: if_splits)

lemma shared_ok_pipe:
  "pipe_step api s t \<Longrightarrow> answers api ans \<Longrightarrow> shared_ok ans cfg (pcache s) \<Longrightarrow> shared_ok ans cfg (pcache t)"
  by (induction rule: pipe_step.induct) (auto simp: answers_def intro: shared_ok_Add)

lemma shared_ok_scrape:
  assumes "scrape_step e ctx_err ans q s t" and "shared_ok ans cfg (scache s)" shows "shared_ok ans cfg (scache t)"
  using assms(1)
proof cases
  case (look i mes res p api p')
  then show ?thesis using shared_ok_pipe [OF look(4,3), of cfg] assms(2) by simp
next
  case (linger k api p')
  then show ?thesis using shared_ok_pipe [OF linger(4,3), of cfg] assms(2) by simp
qed (use assms(2) in simp_all)

lemma shared_ok_cleaner: "cleaner_step d c x c' y \<Longrightarrow> shared_ok ans cfg c \<Longrightarrow> shared_ok ans cfg c'"
  by (induction rule: cleaner_step.induct) (simp_all add: shared_ok_delete)

lemma shared_ok_lookup:
  assumes "lookup_step e ans c f s c' f' t" and "\<And>x. c = Some x \<Longrightarrow> shared_ok ans cfg x" and "f \<Longrightarrow> c \<noteq> None"
  shows "(\<forall>x. c' = Some x \<longrightarrow> shared_ok ans cfg x) \<and> (f' \<longrightarrow> c' \<noteq> None) \<and> (c' = None \<longleftrightarrow> c = None)"
  using assms by (induction rule: lookup_step.induct) (auto simp: answers_def intro: shared_ok_Add)

section \<open>The invariant\<close>

text \<open>Only a cleaner with a positive interval gets beyond its ticker.\<close>

definition cleaner_ok :: "Config \<Rightarrow> cleaner_state \<Rightarrow> bool" where
  "cleaner_ok cfg k = (case k of
      Starting \<Rightarrow> True | NoTicker \<Rightarrow> Cache_Cleanup cfg \<le> 0 | _ \<Rightarrow> 0 < Cache_Cleanup cfg)"

lemma cleaner_ok_step: "cleaner_step (Cache_Cleanup cfg) c x c' y \<Longrightarrow> cleaner_ok cfg x \<Longrightarrow> cleaner_ok cfg y"
  by (induction rule: cleaner_step.induct) (simp_all add: cleaner_ok_def)

definition job_ok :: "ext \<Rightarrow> error \<Rightarrow> (int \<Rightarrow> Probe \<Rightarrow> bool) \<Rightarrow> Config \<Rightarrow> job \<Rightarrow> bool" where
  "job_ok e ctx_err ans cfg j \<longleftrightarrow> rs_cfg (j_strategy j) = cfg \<and> workers (j_strategy j) = Worker_Count cfg \<and>
     requested_ids cfg (j_ids j) \<and>
     (\<exists>c. coherent ans c \<and> scrape_run e ctx_err ans (j_strategy j) (scrape_init (j_ids j) c) (j_scrape j))"

definition process_ok ::
    "ext \<Rightarrow> error \<Rightarrow> (int \<Rightarrow> Probe \<Rightarrow> bool) \<Rightarrow> Config \<Rightarrow> gauges \<Rightarrow> process \<Rightarrow> bool" where
  "process_ok e ctx_err ans cfg g p \<longleftrightarrow>
     (\<forall>c. shared p = Some c \<longrightarrow> shared_ok ans cfg c) \<and> cleaner_ok cfg (cleaner p) \<and>
     (jobs p \<noteq> [] \<or> fetching p \<longrightarrow> shared p \<noteq> None) \<and>
     (\<forall>j \<in> set (jobs p). job_ok e ctx_err ans cfg j) \<and>
     (case streams p of
        None \<Rightarrow> \<not> Streaming_Enabled cfg
      | Some s \<Rightarrow> Streaming_Enabled cfg \<and> reachable e (stream_looks ans) cfg (Streaming_BufferSize cfg) g s)"

lemma job_ok_new: "coherent ans c \<Longrightarrow> requested_ids cfg ids \<Longrightarrow> job_ok e ctx_err ans cfg (new_job http cfg ids c)"
  by (auto simp: job_ok_def new_job_def NewRequestStrategy_def)

lemma job_ok_step:
  assumes "job_ok e ctx_err ans cfg j" and "coherent ans c"
    and "scrape_step e ctx_err ans (j_strategy j) ((j_scrape j)\<lparr>scache := c\<rparr>) t"
  shows "job_ok e ctx_err ans cfg (j\<lparr>j_scrape := t\<rparr>)"
proof -
  let ?R = "scrape_run_step e ctx_err ans (j_strategy j)"
  have "?R (j_scrape j) ((j_scrape j)\<lparr>scache := c\<rparr>)" by (rule scrape_run_step.env [OF assms(2)])
  moreover have "?R ((j_scrape j)\<lparr>scache := c\<rparr>) t" by (rule scrape_run_step.own [OF assms(3)])
  ultimately have "?R\<^sup>*\<^sup>* s (j_scrape j) \<Longrightarrow> ?R\<^sup>*\<^sup>* s t" for s by (meson rtranclp.rtrancl_into_rtrancl)
  with assms(1) show ?thesis by (auto simp: job_ok_def)
qed

lemma process_ok_step:
  assumes "process_step e ctx_err ans cfg p p'" and "process_ok e ctx_err ans cfg g p"
  shows "process_ok e ctx_err ans cfg g p'"
proof -
  have coh: "coherent ans c" "shared_ok ans cfg c" if "shared p = Some c" for c
    using assms(2) that by (auto simp: process_ok_def shared_ok_def)
  have "case streams p' of
      None \<Rightarrow> \<not> Streaming_Enabled cfg
    | Some s \<Rightarrow> Streaming_Enabled cfg \<and> reachable e (stream_looks ans) cfg (Streaming_BufferSize cfg) g s"
  proof (cases "streams p")
    case None
    from assms(1) None have "streams p' = None" by cases simp_all
    with None assms(2) show ?thesis by (simp add: process_ok_def)
  next
    case (Some s)
    from stream_projection [OF assms(1) Some coh(1)] obtain s' where
      "streams p' = Some s'" "s' = s \<or> stream_step e (stream_looks ans) any_event s s'" by blast
    with Some assms(2) reachable_step show ?thesis by (fastforce simp: process_ok_def)
  qed
  moreover have "(\<forall>c. shared p' = Some c \<longrightarrow> shared_ok ans cfg c) \<and> cleaner_ok cfg (cleaner p') \<and>
      (jobs p' \<noteq> [] \<or> fetching p' \<longrightarrow> shared p' \<noteq> None) \<and> (\<forall>j \<in> set (jobs p'). job_ok e ctx_err ans cfg j)"
    using assms(1)
  proof cases
    case (serve c ids http)
    with assms(2) job_ok_new [OF coh(1) [OF serve(2)] serve(3)] show ?thesis by (auto simp: process_ok_def)
  next
    case (scrape c i j t)
    have "job_ok e ctx_err ans cfg j" using assms(2) scrape(3,4) by (auto simp: process_ok_def)
    from job_ok_step [OF this coh(1) [OF scrape(2)] scrape(5)]
    have "\<forall>j \<in> set (jobs p'). job_ok e ctx_err ans cfg j"
      using assms(2) scrape(1) set_update_subset_insert [of "jobs p" i "j\<lparr>j_scrape := t\<rparr>"] by (auto simp: process_ok_def)
    moreover have "shared_ok ans cfg (scache t)" using shared_ok_scrape [OF scrape(5)] coh(2) [OF scrape(2)] by simp
    ultimately show ?thesis using scrape(1) assms(2) by (simp add: process_ok_def)
  next
    case (clean c c' k)
    with assms(2) coh(2) shared_ok_cleaner [OF clean(3)] cleaner_ok_step [OF clean(3)] show ?thesis
      by (simp add: process_ok_def)
  next
    case (lookup s c f t)
    from shared_ok_lookup [OF lookup(3) coh(2)] assms(2) show ?thesis
      unfolding lookup(1) by (auto simp: process_ok_def)
  qed (use assms(2) in \<open>auto simp: process_ok_def InitCache_def shared_ok_New\<close>)
  ultimately show ?thesis by (simp add: process_ok_def)
qed

lemma process_ok_run:
  assumes "process_run e ctx_err ans cfg p p'" and "process_ok e ctx_err ans cfg g p"
  shows "process_ok e ctx_err ans cfg g p'"
  using assms(1) unfolding process_run_def
  by (induction rule: rtranclp_induct) (use assms(2) in \<open>auto intro: process_ok_step\<close>)

lemma process_reachable_ok: "process_reachable e ctx_err ans cfg g p \<Longrightarrow> process_ok e ctx_err ans cfg g p"
  unfolding process_reachable_def
  by (erule process_ok_run) (simp add: process_ok_def process_init_def reachable_def cleaner_ok_def)

lemma process_run_stream:
  assumes "process_run e ctx_err ans cfg p p'" and "process_ok e ctx_err ans cfg g p" and "streams p = Some s"
  shows "\<exists>s'. streams p' = Some s' \<and> (stream_step e (stream_looks ans) any_event)\<^sup>*\<^sup>* s s'"
  using assms(1) unfolding process_run_def
proof (induction rule: rtranclp_induct)
  case (step p' p'')
  then obtain s' where s': "streams p' = Some s'" "(stream_step e (stream_looks ans) any_event)\<^sup>*\<^sup>* s s'" by blast
  have "process_ok e ctx_err ans cfg g p'"
    using process_ok_run [OF _ assms(2)] step.hyps(1) unfolding process_run_def by blast
  then have "coherent ans c" if "shared p' = Some c" for c using that by (simp add: process_ok_def shared_ok_def)
  from stream_projection [OF _ s'(1) this] step.hyps(2) s'(2) show ?case
    by (metis rtranclp.rtrancl_into_rtrancl)
qed (use assms(3) in simp)

lemma job_outcome:
  "job_ok e ctx_err ans cfg j \<Longrightarrow> gathered (j_scrape j) = Gathered r \<Longrightarrow>
     request_outcome e ctx_err ans (j_strategy j) (j_ids j) r"
  by (auto simp: job_ok_def request_outcome_def)

text \<open>What a scrape that was given the measurement \<open>m\<close> of the stream in the state \<open>p\<close> may find when it collects it.\<close>

definition process_live ::
    "ext \<Rightarrow> error \<Rightarrow> (int \<Rightarrow> Probe \<Rightarrow> bool) \<Rightarrow> Config \<Rightarrow> process \<Rightarrow> Measurement \<Rightarrow> Measurement \<Rightarrow> bool" where
  "process_live e ctx_err ans cfg p m m' \<longleftrightarrow> (\<exists>p1 p2 s1 s2 m1 m2.
     process_run e ctx_err ans cfg p p1 \<and> process_run e ctx_err ans cfg p1 p2 \<and>
     streams p1 = Some s1 \<and> map_of (measurements (strat s1)) (measurement_id m) = Some m1 \<and>
     streams p2 = Some s2 \<and> map_of (measurements (strat s2)) (measurement_id m) = Some m2 \<and>
     m' = m1\<lparr>histograms := histograms m2\<rparr>)"

lemma process_live_stream:
  assumes "process_ok e ctx_err ans cfg g p" and "streams p = Some s" and "process_live e ctx_err ans cfg p m m'"
  shows "stream_live e (stream_looks ans) s m m'"
proof -
  from assms(3) obtain p1 p2 s1 s2 m1 m2 where
      p: "process_run e ctx_err ans cfg p p1" "process_run e ctx_err ans cfg p1 p2"
    and s1: "streams p1 = Some s1" "map_of (measurements (strat s1)) (measurement_id m) = Some m1"
    and s2: "streams p2 = Some s2" "map_of (measurements (strat s2)) (measurement_id m) = Some m2"
    and m': "m' = m1\<lparr>histograms := histograms m2\<rparr>" unfolding process_live_def by blast
  have "(stream_step e (stream_looks ans) any_event)\<^sup>*\<^sup>* s s1" using process_run_stream [OF p(1) assms(1,2)] s1 by simp
  moreover have "(stream_step e (stream_looks ans) any_event)\<^sup>*\<^sup>* s1 s2"
    using process_run_stream [OF p(2) process_ok_run [OF p(1) assms(1)] s1(1)] s2 by simp
  ultimately show ?thesis using s1 s2 m' unfolding stream_live_def by blast
qed

section \<open>Progress\<close>

text \<open>Undisturbed, the lookup of the stream's processor is the call of \<open>probeForID\<close> on the shared cache.\<close>

lemma process_run_step: "alive p \<Longrightarrow> process_step e ctx_err ans cfg p p' \<Longrightarrow> process_run e ctx_err ans cfg p p'"
  unfolding process_run_def by (blast intro: r_into_rtranclp)

lemma process_run_trans:
  "process_run e ctx_err ans cfg p p' \<Longrightarrow> process_run e ctx_err ans cfg p' p'' \<Longrightarrow> process_run e ctx_err ans cfg p p''"
  unfolding process_run_def by (rule rtranclp_trans)

lemma process_run_lookup:
  assumes "alive p" and "streams p = Some s" and "lookup_step e ans (shared p) (fetching p) s c f t"
  shows "process_run e ctx_err ans cfg p (p\<lparr>shared := c, fetching := f, streams := Some t\<rparr>)"
  by (rule process_run_step [OF assms(1) process_step.lookup [OF assms(2,3)]])

lemma process_lookup:
  assumes "streams p = Some s" and "proc s = Looking now r" and "\<not> fetching p" and "alive p" and "answers api ans"
    and "probeForID api t t' (PrbId r) (shared p) = looked"
  shows "process_run e ctx_err ans cfg p (p\<lparr>shared := (case looked of Some (_, c) \<Rightarrow> c | None \<Rightarrow> shared p), fetching := False,
    streams := Some (proc_finish e now (map_option fst looked) r s)\<rparr>)"
proof (cases "shared p")
  case None
  then have "looked = None" using assms(6) by (simp add: probeForID_def)
  with process_run_lookup [OF assms(4,1), of e ans None False] None assms(3) lookup_step.nil_cache [OF assms(2)]
  show ?thesis by simp
next
  case (Some c)
  show ?thesis
  proof (cases "Cache_Get t (PrbId r) c")
    case hit: (Some pr)
    then have "looked = Some (Inr pr, Some c)" using assms(6) Some by (simp add: probeForID_def)
    with process_run_lookup [OF assms(4,1), of e ans "Some c" False] Some assms(3) lookup_step.hit [OF assms(2) hit]
    show ?thesis by simp
  next
    case miss: None
    let ?f = "p\<lparr>shared := Some c, fetching := True, streams := Some s\<rparr>"
    have 1: "process_run e ctx_err ans cfg p ?f"
      using process_run_lookup [OF assms(4,1), of e ans "Some c" True s] lookup_step.miss [OF assms(2) miss] Some assms(3) by simp
    have f: "alive ?f" using assms(4) by (simp add: alive_def)
    have 2: "process_run e ctx_err ans cfg p (p\<lparr>shared := c', fetching := False, streams := Some u\<rparr>)"
      if "lookup_step e ans (Some c) True s c' False u" for c' u
      using process_run_trans [OF 1 process_run_lookup [OF f, of s e ans c' False u]] that by simp
    show ?thesis
    proof (cases "probe_Get api (PrbId r)")
      case (Inl err)
      then have "looked = Some (Inl (lookup_error (PrbId r) err), Some c)"
        using assms(6) Some miss by (simp add: probeForID_def)
      with 2 [OF lookup_step.failed [OF assms(2,5) Inl]] show ?thesis by simp
    next
      case (Inr pr)
      then have "looked = Some (Inr pr, Some (Cache_Add t' (PrbId r) pr c))"
        using assms(6) Some miss by (simp add: probeForID_def)
      with 2 [OF lookup_step.fetched [OF assms(2,5) Inr, where t = t']] show ?thesis by simp
    qed
  qed
qed

text \<open>A lookup of the stream's processor can always end.\<close>

lemma processor_progress:
  assumes "streams p = Some s" and "proc s = Looking now r" and "alive p"
  shows "\<exists>p' looked. process_run e ctx_err ans cfg p p' \<and> alive p' \<and> streams p' = Some (proc_finish e now looked r s)"
proof (cases "fetching p")
  case True
  obtain err where err: "probe_Get broken_api (PrbId r) = Inl err" by (simp add: probe_Get_def broken_api_def)
  have "\<exists>c f looked. lookup_step e ans (shared p) (fetching p) s c f (proc_finish e now looked r s)"
    using lookup_step.nil_cache [OF assms(2)] lookup_step.failed [OF assms(2) broken_answers err] True
    by (cases "shared p") (simp, blast)+
  then show ?thesis using process_run_lookup [OF assms(3,1)] assms(3) by (fastforce simp: alive_def)
next
  case False
  from process_lookup [OF assms(1,2) this assms(3) broken_answers refl, where t = 0 and t' = 0] assms(3) show ?thesis
    by (intro exI conjI) (assumption, simp_all add: alive_def)
qed

text \<open>The process is a place where the stream makes progress.\<close>

definition process_reaches ::
    "ext \<Rightarrow> error \<Rightarrow> (int \<Rightarrow> Probe \<Rightarrow> bool) \<Rightarrow> Config \<Rightarrow> process \<Rightarrow> system \<Rightarrow> bool" where
  "process_reaches e ctx_err ans cfg p t \<longleftrightarrow>
     (\<exists>p'. process_run e ctx_err ans cfg p p' \<and> alive p' \<and> streams p' = Some t)"

interpretation streaming: stream_progress e "process_reaches e ctx_err ans cfg p" for e ctx_err ans cfg p
proof
  fix s t assume "process_reaches e ctx_err ans cfg p s" and own: "own_step e s t"
  then obtain p' where p': "process_run e ctx_err ans cfg p p'" "alive p'" "streams p' = Some s"
    by (auto simp: process_reaches_def)
  have step: "stream_step e (\<lambda>k looked. False) any_event s t" by (rule stream_step_mono [OF own]) simp_all
  have "process_run e ctx_err ans cfg p (p'\<lparr>streams := Some t\<rparr>)"
    using process_run_trans [OF p'(1) process_run_step [OF p'(2) process_step.stream [OF p'(3) step]]] .
  with p'(2) show "process_reaches e ctx_err ans cfg p t"
    unfolding process_reaches_def by (intro exI [of _ "p'\<lparr>streams := Some t\<rparr>"]) (simp add: alive_def)
next
  fix s now r assume "process_reaches e ctx_err ans cfg p s" and l: "proc s = Looking now r"
  then obtain p' where p': "process_run e ctx_err ans cfg p p'" "alive p'" "streams p' = Some s"
    by (auto simp: process_reaches_def)
  from processor_progress [OF p'(3) l p'(2)] process_run_trans [OF p'(1)]
  show "\<exists>looked. process_reaches e ctx_err ans cfg p (proc_finish e now looked r s)"
    unfolding process_reaches_def by blast
qed

lemma reaches_now: "streams p = Some s \<Longrightarrow> alive p \<Longrightarrow> process_reaches e ctx_err ans cfg p s"
  by (auto simp: process_reaches_def process_run_def)

definition job_work :: "ext \<Rightarrow> nat \<Rightarrow> process \<Rightarrow> nat" where
  "job_work e i p = scrape_work e (j_strategy (jobs p ! i)) (j_scrape (jobs p ! i))"

lemma scrape_work_cache [simp]: "scrape_work e q (s\<lparr>scache := c\<rparr>) = scrape_work e q s"
  by (simp add: scrape_work_def)

lemma job_work_step:
  assumes "process_step e ctx_err ans cfg p p'" and "i < length (jobs p)"
  shows "i < length (jobs p') \<and> job_work e i p' \<le> job_work e i p"
  using assms(1)
proof cases
  case (serve c ids http)
  with assms(2) show ?thesis by (simp add: job_work_def nth_append)
next
  case (scrape c k j t)
  then show ?thesis using assms(2) scrape_step_decreases [OF scrape(5)]
    by (cases "k = i") (auto simp: job_work_def)
qed (use assms(2) in \<open>simp_all add: job_work_def\<close>)

lemma job_work_run:
  assumes "process_run e ctx_err ans cfg p p'" and "i < length (jobs p)"
  shows "i < length (jobs p') \<and> job_work e i p' \<le> job_work e i p"
  using assms(1) unfolding process_run_def
proof (induction rule: rtranclp_induct)
  case (step p' p'')
  then show ?case using job_work_step [of e ctx_err ans cfg p' p'' i] by force
qed (use assms(2) in simp)

text \<open>A scrape that waits can go on by a step of its own goroutines, without its context being done.\<close>

lemma job_progress:
  assumes "process_ok e ctx_err ans cfg g p" and "i < length (jobs p)"
    and "gathered (j_scrape (jobs p ! i)) = Gathering ms"
  shows "\<exists>t c. process_step e ctx_err ans cfg p (p\<lparr>shared := Some c, jobs := (jobs p)[i := (jobs p ! i)\<lparr>j_scrape := t\<rparr>]\<rparr>) \<and>
    scrape_work e (j_strategy (jobs p ! i)) t < job_work e i p \<and> expired t = expired (j_scrape (jobs p ! i)) \<and>
    (\<forall>err. gathered t \<noteq> Gathered (Inl err)) \<and> (consumer_count (Worker_Count cfg) \<noteq> None \<longrightarrow> gathered t \<noteq> Crashed)"
proof -
  have "jobs p \<noteq> []" using assms(2) by auto
  then obtain c where c: "shared p = Some c" using assms(1) by (auto simp: process_ok_def)
  let ?j = "jobs p ! i"
  have w: "workers (j_strategy ?j) = Worker_Count cfg" using assms(1,2) by (simp add: process_ok_def job_ok_def)
  have "gathered ((j_scrape ?j)\<lparr>scache := c\<rparr>) = Gathering ms" using assms(3) by simp
  from scrape_advances [OF this, of e ctx_err ans "j_strategy ?j"] obtain t
    where t: "scrape_step e ctx_err ans (j_strategy ?j) ((j_scrape ?j)\<lparr>scache := c\<rparr>) t" "expired t = expired (j_scrape ?j)"
      "\<forall>err. gathered t \<noteq> Gathered (Inl err)" by auto
  have "gathered t \<noteq> Crashed" if "consumer_count (Worker_Count cfg) \<noteq> None"
    using t(1) by cases (use w that assms(3) in auto)
  with process_step.scrape [OF c assms(2) refl t(1)] scrape_step_decreases [OF t(1)] t(2,3) show ?thesis
    by (auto simp: job_work_def)
qed

text \<open>Left alone, it returns what it has gathered.\<close>

lemma job_completes:
  assumes "process_ok e ctx_err ans cfg g p" and "alive p" and "i < length (jobs p)"
    and "gathered (j_scrape (jobs p ! i)) = Gathering ms" and "0 \<le> sint (Worker_Count cfg)"
  shows "\<exists>p' ms'. process_run e ctx_err ans cfg p p' \<and> alive p' \<and> gathered (j_scrape (jobs p' ! i)) = Gathered (Inr ms') \<and>
    expired (j_scrape (jobs p' ! i)) = expired (j_scrape (jobs p ! i))"
  using assms(1-4)
proof (induction "job_work e i p" arbitrary: p ms rule: less_induct)
  case less
  have n: "consumer_count (Worker_Count cfg) \<noteq> None" using assms(5) by (simp add: consumer_count_def)
  from job_progress [OF less.prems(1,3,4)] obtain t c where
      step: "process_step e ctx_err ans cfg p (p\<lparr>shared := Some c, jobs := (jobs p)[i := (jobs p ! i)\<lparr>j_scrape := t\<rparr>]\<rparr>)" (is "process_step _ _ _ _ p ?p")
    and w: "scrape_work e (j_strategy (jobs p ! i)) t < job_work e i p" and x: "expired t = expired (j_scrape (jobs p ! i))"
    and r: "\<forall>err. gathered t \<noteq> Gathered (Inl err)" "gathered t \<noteq> Crashed" using n by blast
  have run: "process_run e ctx_err ans cfg p ?p" by (rule process_run_step [OF less.prems(2) step])
  have i: "jobs ?p ! i = (jobs p ! i)\<lparr>j_scrape := t\<rparr>" "i < length (jobs ?p)" using less.prems(3) by simp_all
  have a: "alive ?p" using less.prems(2) r(2) set_update_subset_insert [of "jobs p" i "(jobs p ! i)\<lparr>j_scrape := t\<rparr>"]
    by (auto simp: alive_def)
  show ?case
  proof (cases "gathered t")
    case (Gathering ms')
    have "job_work e i ?p < job_work e i p" using w i(1) by (simp add: job_work_def)
    from less.hyps [OF this process_ok_run [OF run less.prems(1)] a i(2), of ms'] Gathering i(1) x
    show ?thesis using process_run_trans [OF run] by fastforce
  next
    case (Gathered y)
    then obtain ms' where "gathered t = Gathered (Inr ms')" using r(1) by (cases y) auto
    with run a i(1) x show ?thesis by (intro exI [of _ ?p] exI [of _ ms']) simp
  qed (use r(2) in simp)
qed

section \<open>The ends of the process\<close>






section \<open>Properties\<close>

text \<open>C8: the parts of the process keep what the others rely on. In every reachable state the shared
  cache holds answers of the API only, once per probe, with the configured time to live; the stream has run as it
  may run alone, with lookups that yield answers of the API, errors or (before the cache
  exists) panics; and a call of \<open>MeasurementResults\<close> that has returned has returned a value a request strategy with
  the configured number of workers may return. So what is shown of each strategy alone holds in the process.\<close>

theorem process_composes:
  assumes "process_reachable e ctx_err ans cfg g p"
  shows "(\<forall>c. shared p = Some c \<longrightarrow> coherent ans c \<and> Cache_wf c \<and> ttl c = Cache_TTL cfg) \<and>
    (\<forall>s. streams p = Some s \<longrightarrow> Streaming_Enabled cfg \<and>
       reachable e (stream_looks ans) cfg (Streaming_BufferSize cfg) g s) \<and>
    (\<forall>j \<in> set (jobs p). \<forall>r. gathered (j_scrape j) = Gathered r \<longrightarrow>
       shared p \<noteq> None \<and> workers (j_strategy j) = Worker_Count cfg \<and> requested_ids cfg (j_ids j) \<and>
       request_outcome e ctx_err ans (j_strategy j) (j_ids j) r)"
  using process_reachable_ok [OF assms] job_outcome
  by (fastforce simp: process_ok_def shared_ok_def job_ok_def split: option.splits)

text \<open>C9: no part of the process can block another. Whatever the others do, a scrape that has not returned can take a step
  of its own that brings it closer to its end and is not the end of its context, and no step of the others takes it further away;
  with a number of workers that is not negative its own steps alone lead it to return measurements. The stream's processor can always
  empty the channel, and a worker that waits for room in it can hand its result over.\<close>

theorem process_progress:
  assumes "process_reachable e ctx_err ans cfg g p"
  shows "(\<forall>i ms. i < length (jobs p) \<longrightarrow> gathered (j_scrape (jobs p ! i)) = Gathering ms \<longrightarrow>
       (\<exists>p'. process_step e ctx_err ans cfg p p' \<and> job_work e i p' < job_work e i p \<and>
          expired (j_scrape (jobs p' ! i)) = expired (j_scrape (jobs p ! i)) \<and>
          (\<forall>err. gathered (j_scrape (jobs p' ! i)) \<noteq> Gathered (Inl err))) \<and>
       (alive p \<longrightarrow> 0 \<le> sint (Worker_Count cfg) \<longrightarrow>
          (\<exists>p' ms'. process_run e ctx_err ans cfg p p' \<and> gathered (j_scrape (jobs p' ! i)) = Gathered (Inr ms') \<and>
             expired (j_scrape (jobs p' ! i)) = expired (j_scrape (jobs p ! i))))) \<and>
    (\<forall>i p'. i < length (jobs p) \<longrightarrow> process_run e ctx_err ans cfg p p' \<longrightarrow>
       i < length (jobs p') \<and> job_work e i p' \<le> job_work e i p) \<and>
    (\<forall>s. streams p = Some s \<longrightarrow> alive p \<longrightarrow>
       (\<exists>p' t. process_run e ctx_err ans cfg p p' \<and> streams p' = Some t \<and>
          queue t = [] \<and> proc t = Receiving \<and> ws t = ws s \<and> pushed t = pushed s) \<and>
       (\<forall>i w m. worker_at s i w (Forwarding m) \<longrightarrow>
          (\<exists>p' t. process_run e ctx_err ans cfg p p' \<and> streams p' = Some t \<and>
             ws t = (ws s)[i := w\<lparr>w_at := Listening\<rparr>] \<and> pushed t = pushed s @ [m])))"
proof (intro conjI allI impI)
  have ok: "process_ok e ctx_err ans cfg g p" by (rule process_reachable_ok [OF assms])
  fix i ms assume i: "i < length (jobs p)" "gathered (j_scrape (jobs p ! i)) = Gathering ms"
  from job_progress [OF ok i] obtain t c where
      "process_step e ctx_err ans cfg p (p\<lparr>shared := Some c, jobs := (jobs p)[i := (jobs p ! i)\<lparr>j_scrape := t\<rparr>]\<rparr>)"
      "scrape_work e (j_strategy (jobs p ! i)) t < job_work e i p" "expired t = expired (j_scrape (jobs p ! i))"
      "\<forall>err. gathered t \<noteq> Gathered (Inl err)" by blast
  with i(1) show "\<exists>p'. process_step e ctx_err ans cfg p p' \<and> job_work e i p' < job_work e i p \<and>
      expired (j_scrape (jobs p' ! i)) = expired (j_scrape (jobs p ! i)) \<and>
      (\<forall>err. gathered (j_scrape (jobs p' ! i)) \<noteq> Gathered (Inl err))"
    by (intro exI conjI) (assumption, simp_all add: job_work_def)
  assume "alive p" and "0 \<le> sint (Worker_Count cfg)"
  from job_completes [OF ok this(1) i this(2)]
  show "\<exists>p' ms'. process_run e ctx_err ans cfg p p' \<and> gathered (j_scrape (jobs p' ! i)) = Gathered (Inr ms') \<and>
      expired (j_scrape (jobs p' ! i)) = expired (j_scrape (jobs p ! i))" by blast
next
  fix s assume s: "streams p = Some s" "alive p"
  note now = reaches_now [OF s, of e ctx_err ans cfg]
  from streaming.drain [OF now] show "\<exists>p' t. process_run e ctx_err ans cfg p p' \<and> streams p' = Some t \<and>
      queue t = [] \<and> proc t = Receiving \<and> ws t = ws s \<and> pushed t = pushed s"
    unfolding process_reaches_def by blast
  fix i w m assume "worker_at s i w (Forwarding m)"
  from streaming.unblock [OF now this] show "\<exists>p' t. process_run e ctx_err ans cfg p p' \<and> streams p' = Some t \<and>
      ws t = (ws s)[i := w\<lparr>w_at := Listening\<rparr>] \<and> pushed t = pushed s @ [m]"
    unfolding process_reaches_def by blast
qed (use job_work_run in blast)+



subsection \<open>An example run\<close>

lemma process_run_job:
  assumes "(scrape_step e ctx_err ans q)\<^sup>*\<^sup>* s t" and "shared p = Some (scache s)" and "jobs p = [j]"
    and "j_strategy j = q" and "j_scrape j = s" and "alive p" and "consumer_count (workers q) \<noteq> None"
  shows "process_run e ctx_err ans cfg p (p\<lparr>shared := Some (scache t), jobs := [j\<lparr>j_scrape := t\<rparr>]\<rparr>) \<and> gathered t \<noteq> Crashed"
  using assms(1)
proof (induction rule: rtranclp_induct)
  case base
  have "p\<lparr>shared := Some (scache s), jobs := [j\<lparr>j_scrape := s\<rparr>]\<rparr> = p" using assms(2,3,5) by (cases p, cases j) simp
  then show ?case using assms(3,5,6) by (simp add: process_run_def alive_def)
next
  case (step t u)
  let ?p = "\<lambda>t. p\<lparr>shared := Some (scache t), jobs := [j\<lparr>j_scrape := t\<rparr>]\<rparr>"
  have "alive (?p t)" using step.IH assms(6) by (simp add: alive_def)
  moreover have "process_step e ctx_err ans cfg (?p t) (?p u)"
    using process_step.scrape [where p = "?p t" and c = "scache t" and i = 0 and j = "j\<lparr>j_scrape := t\<rparr>" and t = u] step.hyps(2) assms(4)
    by simp
  ultimately have "process_run e ctx_err ans cfg p (?p u)"
    using step.IH process_run_step process_run_trans by blast
  moreover from step.hyps(2) step.IH assms(7) have "gathered u \<noteq> Crashed" by cases auto
  ultimately show ?case by blast
qed

lemma process_run_streams:
  assumes "(stream_step e (\<lambda>k looked. False) any_event)\<^sup>*\<^sup>* s t" and "streams p = Some s" and "alive p"
  shows "process_run e ctx_err ans cfg p (p\<lparr>streams := Some t\<rparr>)"
  using assms(1)
proof (induction rule: rtranclp_induct)
  case base
  have "p\<lparr>streams := Some s\<rparr> = p" using assms(2) by (cases p) simp
  then show ?case by (simp add: process_run_def)
next
  case (step t u)
  have "alive (p\<lparr>streams := Some t\<rparr>)" using assms(3) by (simp add: alive_def)
  from process_run_step [OF this process_step.stream [OF _ step.hyps(2)]] step.IH show ?case
    by (auto elim: process_run_trans)
qed

abbreviation adhoc_job :: "scrape \<Rightarrow> job" where
  "adhoc_job t \<equiv> \<lparr>j_strategy = sample_strategy, j_ids = [''1001''], j_scrape = t\<rparr>"

text \<open>The cache is initialised and an ad-hoc scrape begins; it fetches a measurement, and the stream processes a
  result, whose probe it finds in the cache.\<close>

lemma sample_served:
  defines "p \<equiv> (process_init one_worker no_gauges)\<lparr>shared := Some (NewCache 10),
    jobs := [adhoc_job (scrape_init [''1001''] (NewCache 10))]\<rparr>"
  shows "process_reachable sample_ext ''timeout'' sample_ans one_worker no_gauges p"
proof -
  let ?R = "process_run sample_ext ''timeout'' sample_ans one_worker" and ?i = "process_init one_worker no_gauges"
  let ?p1 = "?i\<lparr>shared := Some (NewCache 10)\<rparr>"
  have cfg: "InitCache (Cache_TTL one_worker) = Some (NewCache 10)" by (simp add: InitCache_def)
  have i: "shared ?i = None" "jobs ?i = []" "fate ?i = None" "cleaner ?i = Starting" by (simp_all add: process_init_def)
  have "alive ?i" by (simp add: alive_def i)
  from process_run_step [OF this process_step.init_cache [OF i(1), where cfg = one_worker]]
  have "?R ?i ?p1" unfolding cfg .
  moreover have "new_job (\<lambda>mid. Inr [Some sample_result]) one_worker [''1001''] (NewCache 10) =
      adhoc_job (scrape_init [''1001''] (NewCache 10))"
    by (simp add: new_job_def sample_strategy_def)
  then have "process_step sample_ext ''timeout'' sample_ans one_worker ?p1 p"
    using process_step.serve [where p = ?p1 and c = "NewCache 10" and ids = "[''1001'']" and cfg = one_worker and http = "\<lambda>mid. Inr [Some sample_result]"]
    by (simp add: i requested_ids_def p_def)
  then have "?R ?p1 p" by (intro process_run_step) (simp_all add: alive_def i)
  ultimately show ?thesis unfolding process_reachable_def by (rule process_run_trans)
qed

lemma update_streams: "p\<lparr>shared := shared p, fetching := fetching p, streams := x\<rparr> = p\<lparr>streams := x\<rparr>"
  by (cases p) simp

lemma sample_process:
  "\<exists>p t m s. process_reachable sample_ext ''timeout'' sample_ans one_worker no_gauges p \<and> alive p \<and>
     jobs p = [adhoc_job t] \<and> gathered t = Gathered (Inr [m]) \<and>
     streams p = Some s \<and> connected (ws s ! 0) \<and> 0 < length (ws s) \<and>
     handled s = [(0, Some (Inr sample_probe), sample_result)]"
proof -
  let ?R = "process_run sample_ext ''timeout'' sample_ans one_worker" and ?i = "process_init one_worker no_gauges"
  let ?j = "adhoc_job (scrape_init [''1001''] (NewCache 10))"
  let ?p2 = "?i\<lparr>shared := Some (NewCache 10), jobs := [?j]\<rparr>"
  have cfg: "Streaming_Enabled one_worker" "Streaming_BufferSize one_worker = 100"
    "Measurements one_worker = [\<lparr>M_ID = ''1001''\<rparr>]" by (simp_all add: ok_cfg_def sample_cfg_def)
  have i: "fetching ?i = False" "fate ?i = None" "cleaner ?i = Starting" "streams ?i = Some (NewStreamingStrategy one_worker 100 no_gauges)"
    using cfg(1,2) by (simp_all add: process_init_def)
  obtain t m where t: "(scrape_step sample_ext ''timeout'' sample_ans sample_strategy)\<^sup>*\<^sup>* (scrape_init [''1001''] (NewCache 10)) t"
    and tc: "scache t = pcache sample_run_end" and m: "gathered t = Gathered (Inr [m])" using sample_scrape by blast
  let ?p3 = "?i\<lparr>shared := Some (scache t), jobs := [adhoc_job t]\<rparr>"
  have "consumer_count (workers sample_strategy) \<noteq> None"
    by (simp add: sample_strategy_def NewRequestStrategy_def sample_count)
  with process_run_job [OF t, where p = ?p2 and j = ?j] have 3: "?R ?p2 ?p3" by (simp add: scrape_init_def alive_def i)
  have a: "alive ?p3" using m by (simp add: alive_def i)
  obtain s where s: "(stream_step sample_ext (\<lambda>k looked. False) any_event)\<^sup>*\<^sup>* (NewStreamingStrategy one_worker 100 no_gauges) s"
    and l: "proc s = Looking 0 sample_result" "handled s = []" "connected (ws s ! 0)" "0 < length (ws s)"
    using sample_stream_begin [OF cfg(3)] by blast
  let ?p4 = "?p3\<lparr>streams := Some s\<rparr>" and ?t = "proc_finish sample_ext 0 (Some (Inr sample_probe)) sample_result s"
  have 4: "?R ?p3 ?p4" by (rule process_run_streams [OF s _ a]) (simp add: i)
  have "Cache_Get 0 (PrbId sample_result) (scache t) = Some sample_probe"
    by (simp add: tc sample_run_end_def Get_Add sample_result_def)
  with l(1) have "lookup_step sample_ext sample_ans (shared ?p4) (fetching ?p4) s (shared ?p4) (fetching ?p4) ?t"
    using lookup_step.hit [OF l(1), of 0 "scache t"] by (simp add: i)
  moreover have "alive ?p4" using a by (simp add: alive_def)
  ultimately have "?R ?p4 (?p4\<lparr>shared := shared ?p4, fetching := fetching ?p4, streams := Some ?t\<rparr>)"
    by (intro process_run_lookup) simp_all
  then have 5: "?R ?p4 (?p4\<lparr>streams := Some ?t\<rparr>)" unfolding update_streams .
  have "process_reachable sample_ext ''timeout'' sample_ans one_worker no_gauges (?p4\<lparr>streams := Some ?t\<rparr>)"
    using sample_served 3 4 5 unfolding process_reachable_def by (meson process_run_trans)
  with m l(2-4) a show ?thesis
    by (intro exI [of _ "?p4\<lparr>streams := Some ?t\<rparr>"] exI [of _ t] exI [of _ m] exI [of _ ?t]) (simp add: alive_def)
qed

theorem process_composes_witness:
  "\<exists>p t m. process_reachable sample_ext ''timeout'' sample_ans one_worker no_gauges p \<and> jobs p = [adhoc_job t] \<and>
     request_outcome sample_ext ''timeout'' sample_ans sample_strategy [''1001''] (Inr [m])"
proof -
  obtain p t m where p: "process_reachable sample_ext ''timeout'' sample_ans one_worker no_gauges p"
    and t: "jobs p = [adhoc_job t]" "gathered t = Gathered (Inr [m])" using sample_process by blast
  from process_composes [OF p] t
  have "request_outcome sample_ext ''timeout'' sample_ans sample_strategy [''1001''] (Inr [m])" by simp
  with p t show ?thesis by blast
qed

theorem process_progress_witness:
  "\<exists>p p'. process_reachable sample_ext ''timeout'' sample_ans one_worker no_gauges p \<and>
     process_step sample_ext ''timeout'' sample_ans one_worker p p' \<and> job_work sample_ext 0 p' < job_work sample_ext 0 p"
proof -
  let ?p = "(process_init one_worker no_gauges)\<lparr>shared := Some (NewCache 10),
    jobs := [adhoc_job (scrape_init [''1001''] (NewCache 10))]\<rparr>"
  have "gathered (j_scrape (jobs ?p ! 0)) = Gathering []" "0 < length (jobs ?p)" by (simp_all add: scrape_init_def)
  with process_progress [OF sample_served] sample_served show ?thesis by blast
qed




end
