(* ===== verification/Server.thy ===== *)
theory Server
  imports Process
begin

text \<open>
  The program around the strategies: \<open>main.go\<close> (start-up, the HTTP handlers, shutdown), \<open>helper.go\<close> (the log
  level), \<open>collector.go\<close> and the process-wide metrics of \<open>atlas/metrics.go\<close>. The Prometheus registry and its
  HTTP handler are parameters; the actions of \<open>main\<close> are listed in the order in which they happen.
\<close>

section \<open>Log level and build information\<close>

datatype log_level = DebugLevel | ErrorLevel | FatalLevel | WarnLevel | InfoLevel

definition setLogLevel :: "string \<Rightarrow> log_level" where
  "setLogLevel l =
     (if l = ''debug'' then DebugLevel
      else if l = ''error'' then ErrorLevel
      else if l = ''fatal'' then FatalLevel
      else if l = ''warn'' then WarnLevel
      else InfoLevel)"

text \<open>The metrics of the exporter itself; \<open>DefBuckets\<close> are the default buckets of the Prometheus library.\<close>

record GaugeOpts =
  G_Name :: string
  G_Help :: string
  G_labels :: "string list"

definition StreamConnectedGauge_opts :: GaugeOpts where
  "StreamConnectedGauge_opts = \<lparr>G_Name = ''atlas_exporter_stream_connected'',
     G_Help = ''Whether the websocket stream is connected (1) or not (0) for a measurement'',
     G_labels = [''measurement_id'']\<rparr>"

definition LastDataTimestampGauge_opts :: GaugeOpts where
  "LastDataTimestampGauge_opts = \<lparr>G_Name = ''atlas_exporter_last_data_timestamp'',
     G_Help = ''Unix timestamp of when data was last received for a measurement'',
     G_labels = [''measurement_id'']\<rparr>"

definition BuildInfoGauge_opts :: GaugeOpts where
  "BuildInfoGauge_opts = \<lparr>G_Name = ''atlas_exporter_build_info'',
     G_Help = ''Build info. Value is always 1 with labels: version, goversion, vcs_revision'',
     G_labels = [''version'', ''goversion'', ''vcs_revision'']\<rparr>"

definition ScrapeBuildDuration_opts :: "float64 list \<Rightarrow> HistogramOpts" where
  "ScrapeBuildDuration_opts DefBuckets = \<lparr>Namespace = [], Subsystem = [],
     Name = ''atlas_exporter_scrape_build_duration_seconds'', Buckets = DefBuckets,
     Help = ''Time to retrieve measurements and build metrics registry'', ConstLabels = []\<rparr>"

text \<open>The build settings are a list of keys and values, absent when the binary carries none.\<close>

fun vcs_revision :: "(string \<times> string) list \<Rightarrow> string" where
  "vcs_revision [] = ''unknown''"
| "vcs_revision ((k, v) # settings) =
     (if k = ''vcs.revision'' \<and> v \<noteq> [] then v else vcs_revision settings)"

definition SetBuildInfo ::
    "string \<Rightarrow> (string \<times> string) list option \<Rightarrow> string \<Rightarrow> (string list, float64) gomap \<Rightarrow> (string list, float64) gomap" where
  "SetBuildInfo goVersion info version gauge =
     (let vcs = (case info of None \<Rightarrow> ''unknown'' | Some settings \<Rightarrow> vcs_revision settings)
      in AList.update [version, goVersion, vcs] (Fin 1) gauge)"

section \<open>The strategies behind their interface\<close>

text \<open>\<open>MeasurementResults\<close> relates a call to the values it may return: \<open>e\<close>, \<open>ctx_err\<close> and \<open>ans\<close> are the
  library functions, the error of the context and the answers of the API for probes.\<close>

datatype Strategy = RequestStrategy requestStrategy | StreamingStrategy streamingStrategy

fun Strategy_MeasurementResults :: "ext \<Rightarrow> error \<Rightarrow> (int \<Rightarrow> Probe \<Rightarrow> bool) \<Rightarrow>
    Strategy \<Rightarrow> string list \<Rightarrow> Measurement list res \<Rightarrow> bool" where
  "Strategy_MeasurementResults e ctx_err ans (RequestStrategy s) ids r = request_outcome e ctx_err ans s ids r"
| "Strategy_MeasurementResults e ctx_err ans (StreamingStrategy s) ids r \<longleftrightarrow> r = stream_MeasurementResults s ids"

fun Strategy_IsHealthy :: "time \<Rightarrow> Strategy \<Rightarrow> bool" where
  "Strategy_IsHealthy now (RequestStrategy s) = request_IsHealthy s"
| "Strategy_IsHealthy now (StreamingStrategy s) = stream_IsHealthy now s"

section \<open>The metrics handler\<close>

record response =
  status :: nat
  body :: string

abbreviation newline :: string where "newline \<equiv> [CHR 0x0A]"

text \<open>What a scrape registers, in the order of registration.\<close>

datatype collector_obj = ProcessCollector | GoCollector | StreamConnectedVec | LastDataTimestampVec | BuildInfoVec
  | ScrapeBuildDuration | measurementCollector "Measurement list"

definition newCollector :: "Measurement list \<Rightarrow> collector_obj" where
  "newCollector ms = measurementCollector ms"

definition scrape_collectors :: "Config \<Rightarrow> Measurement list \<Rightarrow> collector_obj list" where
  "scrape_collectors cfg ms =
     (if Metrics_ProcessEnabled cfg then [ProcessCollector] else []) @
     (if Metrics_GoEnabled cfg then [GoCollector] else []) @
     [StreamConnectedVec, LastDataTimestampVec, BuildInfoVec, ScrapeBuildDuration] @
     (if length ms > 0 then [newCollector ms] else [])"

text \<open>
  The surroundings of the handler: the answers of the global strategy and of a new request strategy, whether the
  registry accepts a collector beside those registered (\<open>MustRegister\<close> panics when it does not), what its HTTP handler
  writes, and the time the scrape took.
\<close>

record scrape_env =
  default_results :: "string list \<Rightarrow> Measurement list res"
  adhoc_results :: "Config \<Rightarrow> 64 word \<Rightarrow> string list \<Rightarrow> Measurement list res"
  register_ok :: "collector_obj list \<Rightarrow> collector_obj \<Rightarrow> bool"
  ServeHTTP :: "collector_obj list \<Rightarrow> response"
  elapsed :: duration

fun MustRegister :: "(collector_obj list \<Rightarrow> collector_obj \<Rightarrow> bool) \<Rightarrow> collector_obj list \<Rightarrow> collector_obj list \<Rightarrow> collector_obj list option" where
  "MustRegister ok reg [] = Some reg"
| "MustRegister ok reg (c # cs) = (if ok reg c then MustRegister ok (reg @ [c]) cs else None)"

text \<open>The handler writes a response or nothing, and observes durations; or returns an error; or panics.\<close>

datatype handled_request = Written "response option" "rat list" | Failed error | Panicked

definition handleMetricsRequest :: "scrape_env \<Rightarrow> Config \<Rightarrow> string \<Rightarrow> handled_request" where
  "handleMetricsRequest env cfg mid =
     (let (ids, results) =
            (if length mid > 0 then ([mid], adhoc_results env cfg (Worker_Count cfg))
             else (MeasurementIDs cfg, default_results env))
      in if length ids = 0 then Written None []
         else case results ids of
             Inl err \<Rightarrow> Failed err
           | Inr ms \<Rightarrow> (case MustRegister (register_ok env) [] (scrape_collectors cfg ms) of
               None \<Rightarrow> Panicked
             | Some reg \<Rightarrow> Written (Some (ServeHTTP env reg)) [Duration_Seconds (elapsed env)]))"

text \<open>\<open>errorHandler\<close>; a handler that writes nothing answers 200 with an empty body, and one that panics has
  its connection closed by the server (\<open>None\<close>).\<close>

definition errorHandler :: "handled_request \<Rightarrow> response option" where
  "errorHandler h = (case h of
      Written None ds \<Rightarrow> Some \<lparr>status = 200, body = []\<rparr>
    | Written (Some r) ds \<Rightarrow> Some r
    | Failed err \<Rightarrow> Some \<lparr>status = 500, body = err @ newline\<rparr>
    | Panicked \<Rightarrow> None)"

definition healthz :: response where
  "healthz = \<lparr>status = 200, body = ''ok'' @ newline\<rparr>"

text \<open>The argument is \<open>None\<close> for a nil strategy.\<close>

definition readyz :: "time \<Rightarrow> Strategy option \<Rightarrow> response" where
  "readyz now strat_var = (case strat_var of
      Some s \<Rightarrow> if Strategy_IsHealthy now s then \<lparr>status = 200, body = ''ready'' @ newline\<rparr>
        else \<lparr>status = 503, body = ''not ready'' @ newline\<rparr>
    | None \<Rightarrow> \<lparr>status = 503, body = ''not ready'' @ newline\<rparr>)"

definition indent :: string where "indent = replicate 12 (CHR '' '')"

definition index_page :: "string \<Rightarrow> string \<Rightarrow> string \<Rightarrow> string" where
  "index_page version path host = concat (map (\<lambda>l. l @ newline) (''<html>'' # map ((@) indent) [
     ''<head><title>RIPE Atlas Exporter (Version '' @ version @ '')</title></head>'',
     ''<body>'',
     ''<h1>RIPE Atlas Exporter</h1>'',
     ''<h2>Example</h2>'',
     ''<p>Metrics for measurement configured in configuration file:</p>'',
     ''<p><a href=\"'' @ path @ ''\">'' @ host @ path @ ''</a></p>'',
     ''<p>Metrics for measurement with id 8809582:</p>'',
     ''<p><a href=\"'' @ path @ ''?measurement_id=8809582\">'' @ host @ path @ ''?measurement_id=8809582</a></p>'',
     ''<h2>More information</h2>'',
     ''<p><a href=\"https://github.com/rjocoleman/atlas_exporter\">github.com/rjocoleman/atlas_exporter</a></p>'',
     ''</body>''])) @ indent @ ''</html>''"

section \<open>Start-up and shutdown\<close>

datatype action = Print string | LogError error | SetLevel log_level | BuildInfo string
  | StartStreaming Config "64 word" | UseRequests Config "64 word" | ResetMux | HandleFunc string
  | CacheInit duration duration | ListenAndServe string | ListenAndServeTLS string string string | Shutdown | Usage "error option"

datatype exit = Exit nat | Return | Crash

text \<open>
  The multiplexer of \<open>net/http\<close>: \<open>pattern_ok\<close> says whether it accepts a pattern beside the registered ones (the pattern
  is well-formed and conflicts with none of them); registering another one panics.
\<close>

fun register_routes :: "(string list \<Rightarrow> string \<Rightarrow> bool) \<Rightarrow> string list \<Rightarrow> string list \<Rightarrow> action list \<times> bool" where
  "register_routes pattern_ok known [] = ([], True)"
| "register_routes pattern_ok known (p # ps) =
     (if pattern_ok known p then
        (case register_routes pattern_ok (known @ [p]) ps of (acts, ok) \<Rightarrow> (HandleFunc p # acts, ok))
      else ([], False))"

definition routes :: "Config \<Rightarrow> string list" where
  "routes cfg = [''/'', Web_TelemetryPath cfg, ''/healthz'', ''/readyz'']"

text \<open>How the final select ends: the context is known (and shutting down may fail), or the server returned.\<close>

datatype served_until = Signal "error option" | ServeReturned "error option"

definition ErrServerClosed :: error where
  "ErrServerClosed = ''http: Server closed''"

definition await :: "served_until \<Rightarrow> action list \<times> exit" where
  "await u = (case u of
      Signal None \<Rightarrow> ([Shutdown], Return)
    | Signal (Some err) \<Rightarrow> ([Shutdown, LogError (''HTTP server shutdown error: '' @ err)], Return)
    | ServeReturned None \<Rightarrow> ([], Return)
    | ServeReturned (Some err) \<Rightarrow>
        if err \<noteq> ErrServerClosed then ([LogError err], Exit 1) else ([], Return))"

text \<open>With a non-positive cleanup interval the goroutine started by \<open>InitCache\<close> panics in \<open>time.NewTicker\<close>. The panic
  ends the process whatever the main goroutine has reached by then, so the actions listed for this case are those
  certain to have happened.\<close>

definition startServer :: "(string list \<Rightarrow> string \<Rightarrow> bool) \<Rightarrow> Config \<Rightarrow> string list \<Rightarrow> served_until \<Rightarrow> action list \<times> exit" where
  "startServer pattern_ok cfg known u =
     (case register_routes pattern_ok known (routes cfg) of
        (acts, False) \<Rightarrow> (acts, Crash)
      | (acts, True) \<Rightarrow>
          (let acts = acts @ [CacheInit (Cache_TTL cfg) (Cache_Cleanup cfg)]
           in if Cache_Cleanup cfg \<le> 0 then (acts, Crash)
              else (let acts = acts @ [if TLS_Enabled cfg
                        then ListenAndServeTLS (Web_ListenAddress cfg) (TLS_CertFile cfg) (TLS_KeyFile cfg)
                        else ListenAndServe (Web_ListenAddress cfg)];
                        (more, ex) = await u
                    in (acts @ more, ex))))"

definition version_lines :: "string \<Rightarrow> string list" where
  "version_lines version = [''atlas_exporter'', ''Version: '' @ version,
     ''Author(s): Daniel Czerwonk, Robert Coleman'',
     ''Metric exporter for RIPE Atlas measurements'',
     ''This software uses Go bindings from the DNS-OARC project (https://github.com/DNS-OARC/ripeatlas)'']"

definition printVersion :: "string \<Rightarrow> action list" where
  "printVersion version = map Print (version_lines version)"

text \<open>
  What \<open>pflag.Parse\<close> makes of the command line: the flags, with whether the version is asked for; a request for help; or an
  error. The flag set is the one that exits on errors: with status 2, and 0 after help.
\<close>

datatype parsed = Parsed bool | HelpAsked | ParseFailed error

text \<open>
  \<open>main\<close>: \<open>linked\<close> are the patterns the packages linked in (profiling) have registered on the default
  multiplexer, \<open>order\<close> and \<open>S\<close> the order of a range statement and the sources of the configuration. The streaming
  strategy makes its channel before it starts a worker.
\<close>

definition main_run ::
    "int \<Rightarrow> (string list \<Rightarrow> string \<Rightarrow> bool) \<Rightarrow> string list \<Rightarrow> string \<Rightarrow> parsed \<Rightarrow>
     ((string \<times> float64 list) list \<Rightarrow> (string \<times> float64 list) list) \<Rightarrow> ('k, 'z) sources_scheme \<Rightarrow>
     served_until \<Rightarrow> action list \<times> exit" where
  "main_run chan_max pattern_ok linked version args order S u =
     (case RegisterFlags of
        None \<Rightarrow> ([], Crash)
      | Some flags \<Rightarrow> (case args of
            HelpAsked \<Rightarrow> ([Usage None], Exit 0)
          | ParseFailed err \<Rightarrow> ([Usage (Some err)], Exit 2)
          | Parsed showVersion \<Rightarrow>
          if showVersion then (printVersion version, Exit 0)
          else case Load order S of
              None \<Rightarrow> ([], Crash)
            | Some (Inl err) \<Rightarrow> ([LogError err], Exit 1)
            | Some (Inr cfg) \<Rightarrow>
                if Streaming_Enabled cfg \<and> makechan chan_max (Streaming_BufferSize cfg) = None
                then ([SetLevel (setLogLevel (Log_Level cfg)), BuildInfo version], Crash)
                else
                (let acts = [SetLevel (setLogLevel (Log_Level cfg)), BuildInfo version,
                       if Streaming_Enabled cfg then StartStreaming cfg (Streaming_BufferSize cfg)
                       else UseRequests cfg (Worker_Count cfg)];
                     (acts, known) = (if \<not> Profiling_Enabled cfg then (acts @ [ResetMux], []) else (acts, linked));
                     (more, ex) = startServer pattern_ok cfg known u
                 in (acts @ more, ex))))"

section \<open>Lemmas\<close>

lemma RegisterFlags_total: "\<exists>fs. RegisterFlags = Some fs"
  by (simp add: RegisterFlags_def Defaults_def flag_defs_def)

text \<open>The routes can be registered when each is accepted beside those before it.\<close>

lemma register_routes_ok:
  assumes "\<And>known p. pattern_ok known p \<longleftrightarrow> valid p \<and> (\<forall>q \<in> set known. \<not> conflicts q p)"
  shows "snd (register_routes pattern_ok known ps) \<longleftrightarrow>
    (\<forall>p \<in> set ps. valid p \<and> (\<forall>q \<in> set known. \<not> conflicts q p)) \<and> sorted_wrt (\<lambda>q p. \<not> conflicts q p) ps"
  using assms by (induction ps arbitrary: known) (auto simp: case_prod_unfold)

text \<open>The patterns the program registers besides the telemetry path.\<close>

abbreviation own_patterns :: "string list" where
  "own_patterns \<equiv> [''/'', ''/healthz'', ''/readyz'']"

lemma routes_ok:
  assumes "\<And>known p. pattern_ok known p \<longleftrightarrow> valid p \<and> (\<forall>q \<in> set known. \<not> conflicts q p)"
    and "\<And>p q. conflicts p q \<Longrightarrow> conflicts q p"
    and "\<forall>p \<in> set own_patterns. valid p \<and> p \<notin> set linked \<and>
      (\<forall>q \<in> set (own_patterns @ linked). q \<noteq> p \<longrightarrow> \<not> conflicts q p)"
    and "set known \<subseteq> set linked"
  shows "snd (register_routes pattern_ok known (routes cfg)) \<longleftrightarrow>
    valid (Web_TelemetryPath cfg) \<and> (\<forall>q \<in> set (own_patterns @ known). \<not> conflicts q (Web_TelemetryPath cfg))"
proof -
  let ?t = "Web_TelemetryPath cfg"
  have own: "valid p \<and> (\<forall>q \<in> set known. \<not> conflicts q p)" if "p \<in> set own_patterns" for p
  proof -
    note p = bspec [OF assms(3) that]
    have "\<not> conflicts q p" if "q \<in> set known" for q
    proof -
      have "q \<in> set (own_patterns @ linked)" "q \<noteq> p" using that assms(4) p by auto
      with p show ?thesis by blast
    qed
    with p show ?thesis by blast
  qed
  have apart: "\<not> conflicts ''/'' ''/healthz''" "\<not> conflicts ''/'' ''/readyz''" "\<not> conflicts ''/healthz'' ''/readyz''"
    using assms(3) by simp_all
  have sym: "conflicts ?t p = conflicts p ?t" for p using assms(2) by blast
  have "snd (register_routes pattern_ok known (routes cfg)) \<longleftrightarrow>
      valid ?t \<and> (\<forall>q \<in> set known. \<not> conflicts q ?t) \<and>
      \<not> conflicts ''/'' ?t \<and> \<not> conflicts ''/healthz'' ?t \<and> \<not> conflicts ''/readyz'' ?t"
    unfolding register_routes_ok [OF assms(1)] routes_def using own apart sym by auto
  then show ?thesis by auto
qed

lemma register_routes_actions:
  "register_routes pattern_ok known ps = (acts, True) \<Longrightarrow> acts = map HandleFunc ps"
  by (induction ps arbitrary: known acts) (auto split: prod.splits if_splits)

lemma register_routes_only:
  "set (fst (register_routes pattern_ok known ps)) \<subseteq> range HandleFunc"
  by (induction ps arbitrary: known) (auto simp: case_prod_unfold)

lemma await_not_crash: "snd (await u) \<noteq> Crash"
  by (auto simp: await_def split: served_until.splits option.splits)

definition listens :: "Config \<Rightarrow> action" where
  "listens cfg = (if TLS_Enabled cfg
     then ListenAndServeTLS (Web_ListenAddress cfg) (TLS_CertFile cfg) (TLS_KeyFile cfg)
     else ListenAndServe (Web_ListenAddress cfg))"

lemma startServer_cases:
  "startServer pattern_ok cfg known u =
     (case register_routes pattern_ok known (routes cfg) of
        (acts, False) \<Rightarrow> (acts, Crash)
      | (acts, True) \<Rightarrow>
          if Cache_Cleanup cfg \<le> 0 then (acts @ [CacheInit (Cache_TTL cfg) (Cache_Cleanup cfg)], Crash)
          else (acts @ [CacheInit (Cache_TTL cfg) (Cache_Cleanup cfg), listens cfg] @ fst (await u), snd (await u)))"
  by (auto simp: startServer_def listens_def Let_def split: prod.splits bool.splits)

definition no_channel :: "int \<Rightarrow> Config \<Rightarrow> bool" where
  "no_channel chan_max cfg \<longleftrightarrow> Streaming_Enabled cfg \<and> makechan chan_max (Streaming_BufferSize cfg) = None"

lemma main_run_no_channel:
  assumes "Load order S = Some (Inr cfg)" and "no_channel chan_max cfg"
  shows "main_run chan_max pattern_ok linked version (Parsed False) order S u =
    ([SetLevel (setLogLevel (Log_Level cfg)), BuildInfo version], Crash)"
proof -
  obtain fs where fs: "RegisterFlags = Some fs" using RegisterFlags_total by blast
  show ?thesis unfolding main_run_def fs assms(1) using assms(2) by (simp add: no_channel_def)
qed

lemma main_run_loaded:
  assumes "Load order S = Some (Inr cfg)" and "\<not> no_channel chan_max cfg"
  shows "main_run chan_max pattern_ok linked version (Parsed False) order S u =
    (let (more, ex) = startServer pattern_ok cfg (if Profiling_Enabled cfg then linked else []) u
     in (SetLevel (setLogLevel (Log_Level cfg)) # BuildInfo version #
         (if Streaming_Enabled cfg then StartStreaming cfg (Streaming_BufferSize cfg)
          else UseRequests cfg (Worker_Count cfg)) #
         (if Profiling_Enabled cfg then [] else [ResetMux]) @ more, ex))"
proof -
  obtain fs where fs: "RegisterFlags = Some fs" using RegisterFlags_total by blast
  show ?thesis unfolding main_run_def fs assms(1) using assms(2) unfolding no_channel_def
    by (cases "Profiling_Enabled cfg") (simp_all add: Let_def case_prod_unfold)
qed

lemma MustRegister_ok:
  "(\<And>reg c. ok reg c) \<Longrightarrow> MustRegister ok reg cs = Some (reg @ cs)"
  by (induction cs arbitrary: reg) auto

section \<open>Properties\<close>

text \<open>C22: start-up, with or without profiling. The program crashes while it loads a configuration exactly as \<open>Load\<close> panics,
  and a configuration that could not be loaded ends it with status 1 before anything is
  started. A loaded (hence validated) one crashes exactly when it streams with a buffer no channel can have, when
  its telemetry path is not a well-formed pattern, or conflicts with a path the program registers itself or (profiling) with a
  linked one, or when its cleanup interval is
  zero, all of which the validation accepts; otherwise the
  program listens, and its exit is that of the final select: 1 when the server fails, a normal return
  after a signal. The multiplexer is taken to do what its documentation says: it refuses malformed patterns and those that
  conflict, symmetrically, with a registered one; the fixed patterns are well-formed and conflict with no other.\<close>

theorem main_exit:
  assumes "\<And>known p. pattern_ok known p \<longleftrightarrow> valid p \<and> (\<forall>q \<in> set known. \<not> conflicts q p)"
    and "\<And>p q. conflicts p q \<Longrightarrow> conflicts q p"
    and "\<forall>p \<in> set own_patterns. valid p \<and> p \<notin> set linked \<and>
      (\<forall>q \<in> set (own_patterns @ linked). q \<noteq> p \<longrightarrow> \<not> conflicts q p)"
    and "run = main_run chan_max pattern_ok linked version (Parsed False) order S u"
  shows "case Load order S of
      None \<Rightarrow> run = ([], Crash)
    | Some (Inl err) \<Rightarrow> run = ([LogError err], Exit 1)
    | Some (Inr cfg) \<Rightarrow>
        (snd run = Crash \<longleftrightarrow>
           Streaming_Enabled cfg \<and> makechan chan_max (Streaming_BufferSize cfg) = None \<or>
           \<not> valid (Web_TelemetryPath cfg) \<or>
           (\<exists>q \<in> set (own_patterns @ (if Profiling_Enabled cfg then linked else [])). conflicts q (Web_TelemetryPath cfg)) \<or>
           Cache_Cleanup cfg \<le> 0) \<and>
        (snd run \<noteq> Crash \<longrightarrow> listens cfg \<in> set (fst run) \<and> snd run = snd (await u))"
proof -
  obtain fs where fs: "RegisterFlags = Some fs" using RegisterFlags_total by blast
  consider (panic) "Load order S = None" | (err) err where "Load order S = Some (Inl err)"
    | (ok) cfg where "Load order S = Some (Inr cfg)" by (metis not_None_eq sum.exhaust)
  then show ?thesis
  proof cases
    case panic
    then show ?thesis unfolding assms(4) main_run_def fs panic by simp
  next
    case err
    then show ?thesis unfolding assms(4) main_run_def fs err by simp
  next
    case (ok cfg)
    show ?thesis
    proof (cases "no_channel chan_max cfg")
      case True
      with main_run_no_channel [OF ok True] show ?thesis unfolding assms(4) by (simp add: ok no_channel_def)
    next
      case False
      let ?known = "if Profiling_Enabled cfg then linked else []"
      have "set ?known \<subseteq> set linked" by auto
      note reg = routes_ok [OF assms(1-3) this, of cfg]
      obtain acts q where r: "register_routes pattern_ok ?known (routes cfg) = (acts, q)" by force
      from reg [unfolded r] have q: "q \<longleftrightarrow> valid (Web_TelemetryPath cfg) \<and>
          (\<forall>q \<in> set (own_patterns @ ?known). \<not> conflicts q (Web_TelemetryPath cfg))" by simp
      have "(snd run = Crash \<longleftrightarrow> \<not> q \<or> Cache_Cleanup cfg \<le> 0) \<and>
          (snd run \<noteq> Crash \<longrightarrow> listens cfg \<in> set (fst run) \<and> snd run = snd (await u))"
        unfolding assms(4) main_run_loaded [OF ok False] startServer_cases r using await_not_crash [of u] by (cases q) simp_all
      with False q show ?thesis unfolding ok no_channel_def by auto
    qed
  qed
qed

text \<open>C40: with streaming on, the workers and the processor are started before the probe cache is
  initialised: all routes are registered between the two, and a lookup in that interval meets the nil
  cache and panics.\<close>

theorem streaming_before_cache:
  assumes "Load order S = Some (Inr cfg)" and "Streaming_Enabled cfg"
    and "CacheInit (Cache_TTL cfg) (Cache_Cleanup cfg) \<in> set (fst (main_run chan_max pattern_ok linked version (Parsed False) order S u))"
  shows "(\<exists>before between after. fst (main_run chan_max pattern_ok linked version (Parsed False) order S u) =
      before @ StartStreaming cfg (Streaming_BufferSize cfg) # between @
      CacheInit (Cache_TTL cfg) (Cache_Cleanup cfg) # after \<and>
      set (map HandleFunc (routes cfg)) \<subseteq> set between) \<and>
    (\<forall>api now now' pid. probeForID api now now' pid None = None)"
proof -
  let ?l = "if Profiling_Enabled cfg then linked else []" and ?m = "if Profiling_Enabled cfg then [] else [ResetMux]"
  let ?c = "CacheInit (Cache_TTL cfg) (Cache_Cleanup cfg)"
  obtain acts q where r: "register_routes pattern_ok ?l (routes cfg) = (acts, q)" by force
  have "\<not> no_channel chan_max cfg"
  proof
    assume none: "no_channel chan_max cfg"
    from assms(3) show False unfolding main_run_no_channel [OF assms(1) none] by simp
  qed
  note loaded = main_run_loaded [OF assms(1) this]
  have only: "set acts \<subseteq> range HandleFunc"
    using register_routes_only [of pattern_ok ?l "routes cfg"] unfolding r by simp
  have q: q
  proof (rule ccontr)
    assume "\<not> q"
    then have "?c \<in> set acts" using assms(2,3) unfolding loaded startServer_cases r
      by (auto split: if_splits)
    with only show False by auto
  qed
  then have acts: "acts = map HandleFunc (routes cfg)" 
    using register_routes_actions [of pattern_ok ?l "routes cfg" acts] r by simp
  have "\<exists>post. fst (startServer pattern_ok cfg ?l u) = acts @ ?c # post"
    unfolding startServer_cases r using q by simp
  then obtain post where "fst (startServer pattern_ok cfg ?l u) = acts @ ?c # post" by blast
  then have 1: "fst (main_run chan_max pattern_ok linked version (Parsed False) order S u) =
      [SetLevel (setLogLevel (Log_Level cfg)), BuildInfo version] @
      StartStreaming cfg (Streaming_BufferSize cfg) # (?m @ acts) @ ?c # post"
    unfolding loaded using assms(2) by (simp add: case_prod_unfold Let_def)
  have 2: "set (map HandleFunc (routes cfg)) \<subseteq> set (?m @ acts)" by (simp add: acts)
  have 3: "\<forall>api now now' pid. probeForID api now now' pid None = None" by (simp add: probeForID_def)
  show ?thesis by (rule conjI, rule exI, rule exI, rule exI, rule conjI, rule 1, rule 2, rule 3)
qed

theorem main_exit_witness:
  "snd (main_run (2 ^ 40) (\<lambda>known p. CHR ''{'' \<notin> set p \<and> p \<notin> set known) [''/debug/pprof/''] ''dev'' (Parsed False) rev
     sample_sources (Signal None)) = Return"
proof -
  let ?mux = "\<lambda>known p. CHR ''{'' \<notin> set p \<and> p \<notin> set known" and ?linked = "[''/debug/pprof/'']"
  let ?run = "main_run (2 ^ 40) ?mux ?linked ''dev'' (Parsed False) rev sample_sources (Signal None)"
  have "case Load rev sample_sources of
      None \<Rightarrow> ?run = ([], Crash)
    | Some (Inl err) \<Rightarrow> ?run = ([LogError err], Exit 1)
    | Some (Inr cfg) \<Rightarrow>
        (snd ?run = Crash \<longleftrightarrow>
           Streaming_Enabled cfg \<and> makechan (2 ^ 40) (Streaming_BufferSize cfg) = None \<or>
           \<not> CHR ''{'' \<notin> set (Web_TelemetryPath cfg) \<or>
           (\<exists>q \<in> set (own_patterns @ (if Profiling_Enabled cfg then ?linked else [])). q = Web_TelemetryPath cfg) \<or>
           Cache_Cleanup cfg \<le> 0) \<and>
        (snd ?run \<noteq> Crash \<longrightarrow> listens cfg \<in> set (fst ?run) \<and> snd ?run = snd (await (Signal None)))"
    by (rule main_exit [where valid = "\<lambda>p. CHR ''{'' \<notin> set p" and conflicts = "(=)" and pattern_ok = ?mux and linked = ?linked]) auto
  then show ?thesis unfolding sample_Load by (simp add: sample_cfg_def await_def makechan_def)
qed

theorem streaming_before_cache_witness:
  "\<exists>before between after.
     fst (main_run (2 ^ 40) (\<lambda>known p. p \<notin> set known) [] ''dev'' (Parsed False) rev sample_sources (Signal None)) =
     before @ StartStreaming sample_cfg 100 # between @ CacheInit (3600 * Second) (300 * Second) # after"
proof -
  let ?run = "main_run (2 ^ 40) (\<lambda>known p. p \<notin> set known) [] ''dev'' (Parsed False) rev sample_sources (Signal None)"
  have on: "Streaming_Enabled sample_cfg" by (simp add: sample_cfg_def)
  have "\<not> no_channel (2 ^ 40) sample_cfg" by (simp add: no_channel_def makechan_def sample_cfg_def)
  note loaded = main_run_loaded [OF sample_Load this]
  have init: "CacheInit (Cache_TTL sample_cfg) (Cache_Cleanup sample_cfg) \<in> set (fst ?run)"
    unfolding loaded startServer_cases
    by (simp add: sample_cfg_def routes_def Let_def case_prod_unfold)
  have v: "Streaming_BufferSize sample_cfg = 100" "Cache_TTL sample_cfg = 3600 * Second"
    "Cache_Cleanup sample_cfg = 300 * Second" by (simp_all add: sample_cfg_def)
  from streaming_before_cache [OF sample_Load on init] show ?thesis unfolding v by (elim conjE exE) (intro exI)
qed

end
