(* ===== verification/Stream_Gauges.thy ===== *)
theory Stream_Gauges
  imports Stream_Strategy
begin

text \<open>
  The gauges the streaming strategy exports beside the measurements (\<open>atlas/metrics.go\<close>): what they say of the
  workers and of the results received, in every reachable state.
\<close>

section \<open>Connected workers\<close>

abbreviation worker_id :: "worker \<Rightarrow> string" where
  "worker_id w \<equiv> M_ID (w_measurement w)"

definition gauge_ok :: "system \<Rightarrow> bool" where
  "gauge_ok s \<longleftrightarrow>
     (\<forall>i < length (ws s). map_of (StreamConnectedGauge (gau s)) (worker_id (ws s ! i)) \<in>
        (if reported (ws s ! i) then {Some 1} else {None, Some 0})) \<and>
     (\<forall>k. k \<notin> worker_id ` set (ws s) \<longrightarrow> map_of (StreamConnectedGauge (gau s)) k = None)"

lemma gauge_ok_same:
  "ws t = ws s \<Longrightarrow> StreamConnectedGauge (gau t) = StreamConnectedGauge (gau s) \<Longrightarrow> gauge_ok s \<Longrightarrow> gauge_ok t"
  by (simp add: gauge_ok_def)

text \<open>A worker changes state and sets its gauge, or leaves it where it agrees with the new state already.\<close>

lemma gauge_ok_worker:
  assumes "gauge_ok s" and "distinct (map worker_id (ws s))" and "i < length (ws s)" and "ws s ! i = w"
    and "ws t = (ws s)[i := w']" and "w_measurement w' = w_measurement w"
    and "StreamConnectedGauge (gau t) = StreamConnectedGauge (gau s) \<and> reported w' = reported w \<or>
      StreamConnectedGauge (gau t) =
        AList.update (worker_id w) (if reported w' then 1 else 0) (StreamConnectedGauge (gau s))"
  shows "gauge_ok t"
proof -
  have "map worker_id (ws t) = map worker_id (ws s)"
    using assms(3-6) by (simp add: map_update list_update_same_conv)
  then have ids: "worker_id ` set (ws t) = worker_id ` set (ws s)" by (metis list.set_map)
  have mem: "worker_id w \<in> worker_id ` set (ws s)" using assms(3,4) by auto
  have "map_of (StreamConnectedGauge (gau t)) (worker_id (ws t ! j)) \<in>
      (if reported (ws t ! j) then {Some 1} else {None, Some 0})" if j: "j < length (ws s)" for j
  proof (cases "j = i")
    case True
    have "map_of (StreamConnectedGauge (gau s)) (worker_id w) \<in> (if reported w then {Some 1} else {None, Some 0})"
      using assms(1,3,4) unfolding gauge_ok_def by metis
    then show ?thesis using assms(3,5-7) True by (auto simp: gomap_simps simp del: map_of_eq_Some_iff)
  next
    case False
    then have "worker_id (ws s ! j) \<noteq> worker_id w"
      using assms(2,3,4) j by (metis length_map nth_eq_iff_index_eq nth_map)
    moreover have "map_of (StreamConnectedGauge (gau s)) (worker_id (ws s ! j)) \<in>
        (if reported (ws s ! j) then {Some 1} else {None, Some 0})"
      using assms(1) j by (simp add: gauge_ok_def)
    ultimately show ?thesis using assms(5,7) False by (auto simp: gomap_simps simp del: map_of_eq_Some_iff)
  qed
  moreover have "map_of (StreamConnectedGauge (gau t)) k = None" if "k \<notin> worker_id ` set (ws t)" for k
    using assms(1,7) that mem unfolding ids by (auto simp: gauge_ok_def gomap_simps)
  ultimately show ?thesis using assms(5) unfolding gauge_ok_def by simp
qed

lemma gauge_ok_step:
  assumes "stream_step e looks evs s t" and "gauge_ok s" and "distinct (map worker_id (ws s))"
  shows "gauge_ok t"
proof -
  note change = gauge_ok_worker [OF assms(2,3)]
  from assms(1) show ?thesis
  proof cases
    case (sub_fail i w connect)
    then show ?thesis
      by (intro change [of i w _ "w\<lparr>retryAttempt := retryAttempt w + 1, w_at := Backoff\<rparr>"]) (simp_all add: run_defs)
  next
    case (sub_ok i w connect)
    then show ?thesis
      by (intro change [of i w _ "w\<lparr>retryAttempt := 0, w_at := Marking\<rparr>"]) (simp_all add: run_defs)
  next
    case (mark i w)
    then show ?thesis by (intro change [of i w _ "w\<lparr>w_at := Listening\<rparr>"]) (simp_all add: run_defs)
  next
    case (forward i w ev m)
    then show ?thesis by (intro change [of i w _ "w\<lparr>w_at := Forwarding m\<rparr>"]) simp_all
  next
    case (leave i w ev)
    then show ?thesis by (intro change [of i w _ "w\<lparr>w_at := Unmarking\<rparr>"]) (simp_all add: run_defs)
  next
    case (leave_done i w)
    then show ?thesis by (intro change [of i w _ "w\<lparr>w_at := Unmarking\<rparr>"]) (simp_all add: run_defs)
  next
    case (unmark i w)
    then show ?thesis
      by (intro change [of i w _ "w\<lparr>retryAttempt := retryAttempt w + 1, w_at := Backoff\<rparr>"]) (simp_all add: run_defs)
  next
    case (push i w m)
    then show ?thesis by (intro change [of i w _ "w\<lparr>w_at := Listening\<rparr>"]) simp_all
  next
    case (handoff i w m now)
    then show ?thesis by (intro change [of i w _ "w\<lparr>w_at := Listening\<rparr>"]) simp_all
  next
    case (backoff i w random d)
    then show ?thesis by (intro change [of i w _ "w\<lparr>w_at := Sleeping d\<rparr>"]) simp_all
  next
    case (die i w random)
    then show ?thesis by (intro change [of i w _ "w\<lparr>w_at := Dead\<rparr>"]) simp_all
  next
    case (wake i w d)
    then show ?thesis by (intro change [of i w _ "w\<lparr>w_at := Subscribing\<rparr>"]) simp_all
  next
    case (stop i w d)
    then show ?thesis by (intro change [of i w _ "w\<lparr>w_at := Stopped\<rparr>"]) simp_all
  next
    case (discard_sender i w m)
    then show ?thesis by (intro change [of i w _ "w\<lparr>w_at := Listening\<rparr>"]) (simp_all add: run_defs)
  qed (use assms(2) in \<open>auto intro: gauge_ok_same simp: run_defs\<close>)
qed

section \<open>The time of the last result\<close>

text \<open>The results the processor has received, with the times, in the order of their arrival.\<close>

definition arrivals :: "system \<Rightarrow> (time \<times> Result) list" where
  "arrivals s = map (\<lambda>(now, looked, r). (now, r)) (handled s) @
     (case proc s of Looking now r \<Rightarrow> [(now, r)] | _ \<Rightarrow> [])"

fun last_for :: "string \<Rightarrow> (time \<times> Result) list \<Rightarrow> time option" where
  "last_for msm [] = None"
| "last_for msm ((now, r) # xs) = (case last_for msm xs of
      Some t \<Rightarrow> Some t
    | None \<Rightarrow> if Itoa (MsmId r) = msm then Some now else None)"

lemma last_for_snoc:
  "last_for msm (xs @ [(now, r)]) = (if Itoa (MsmId r) = msm then Some now else last_for msm xs)"
  by (induction msm xs rule: last_for.induct) (auto split: option.splits)

definition data_ok :: "system \<Rightarrow> bool" where
  "data_ok s \<longleftrightarrow> (\<forall>msm. map_of (LastDataTimestampGauge (gau s)) msm =
     map_option (\<lambda>now. float64_of_int (Time_Unix now)) (last_for msm (arrivals s)))"

lemma data_ok_begin:
  assumes "data_ok s" and "proc s = Receiving" and "LastDataTimestampGauge (gau s') = LastDataTimestampGauge (gau s)"
    and "handled s' = handled s"
  shows "data_ok (proc_begin now r s')"
proof -
  have "arrivals (proc_begin now r s') = arrivals s @ [(now, r)]" using assms(2,4) by (simp add: arrivals_def)
  moreover have "LastDataTimestampGauge (gau (proc_begin now r s')) =
      AList.update (Itoa (MsmId r)) (float64_of_int (Time_Unix now)) (LastDataTimestampGauge (gau s))"
    using assms(3) by (simp add: proc_begin_def process_mark_def)
  ultimately show ?thesis using assms(1) by (simp add: data_ok_def last_for_snoc gomap_simps)
qed

lemma data_ok_same:
  "arrivals t = arrivals s \<Longrightarrow> LastDataTimestampGauge (gau t) = LastDataTimestampGauge (gau s) \<Longrightarrow> data_ok s \<Longrightarrow> data_ok t"
  by (simp add: data_ok_def)

lemma arrivals_finish: "proc s = Looking now r \<Longrightarrow> arrivals (proc_finish e now looked r s) = arrivals s"
  by (rule proc_finish_cases [of e looked r s now]) (simp add: arrivals_def)

lemma data_ok_step:
  assumes "stream_step e looks evs s t" and "data_ok s" shows "data_ok t"
  using assms(1)
proof cases
  case (handoff i w m now)
  then show ?thesis using data_ok_begin [OF assms(2) handoff(4)] by simp
next
  case (process r rs now)
  then show ?thesis using data_ok_begin [OF assms(2) process(2)] by simp
next
  case (found now r looked)
  then show ?thesis using assms(2) by (auto intro: data_ok_same simp: arrivals_finish)
qed (use assms(2) in \<open>auto simp: data_ok_def arrivals_def run_defs\<close>)

section \<open>Properties\<close>

lemma gauges_ok:
  assumes "reachable e looks cfg b no_gauges s"
  shows "distinct (MeasurementIDs cfg) \<Longrightarrow> gauge_ok s" and "data_ok s"
proof -
  note d = NewStreamingStrategy_def start_def new_streamingStrategy_def new_worker_def
  note run = assms [unfolded reachable_def]
  show "gauge_ok s" if ids: "distinct (MeasurementIDs cfg)" using run
  proof (induction rule: rtranclp_induct)
    case base
    show ?case by (simp add: d gauge_ok_def)
  next
    case (step s t)
    have "reachable e looks cfg b no_gauges s" using step.hyps(1) by (simp add: reachable_def)
    from reachable_ok(1) [OF this] have "map w_measurement (ws s) = Measurements cfg" by (simp add: workers_ok_def)
    then have "map worker_id (ws s) = MeasurementIDs cfg"
      unfolding MeasurementIDs_def by (metis (no_types, lifting) list.map_comp comp_def map_eq_conv)
    then show ?case using gauge_ok_step [OF step.hyps(2) step.IH] ids by simp
  qed
  show "data_ok s" using run
  proof (induction rule: rtranclp_induct)
    case base
    show ?case by (simp add: d data_ok_def arrivals_def)
  qed (rule data_ok_step)
qed

text \<open>C17: the gauges tell the truth. In every reachable state, when the configured ids are distinct, the gauge of a
  measurement is 1 exactly while its worker listens, between setting it after the subscription and
  resetting it after the stream has ended, and 0 or absent otherwise; no other measurement has one. The
  gauge of the last data holds, for every measurement a result was received for, the time of the last one.\<close>

theorem gauges_accurate:
  assumes "reachable e looks cfg b no_gauges s"
  shows "(distinct (MeasurementIDs cfg) \<longrightarrow>
      (\<forall>w \<in> set (ws s). map_of (StreamConnectedGauge (gau s)) (M_ID (w_measurement w)) \<in>
         (if reported w then {Some 1} else {None, Some 0})) \<and>
      fst ` set (StreamConnectedGauge (gau s)) \<subseteq> set (MeasurementIDs cfg)) \<and>
    map_of (LastDataTimestampGauge (gau s)) msm =
      map_option (\<lambda>now. float64_of_int (Time_Unix now)) (last_for msm (arrivals s))"
proof -
  have "map w_measurement (ws s) = Measurements cfg" using reachable_ok(1) [OF assms] by (simp add: workers_ok_def)
  then have "worker_id ` set (ws s) = set (MeasurementIDs cfg)"
    unfolding MeasurementIDs_def by (metis image_image list.set_map)
  then have "(\<forall>w \<in> set (ws s). map_of (StreamConnectedGauge (gau s)) (worker_id w) \<in>
       (if reported w then {Some 1} else {None, Some 0})) \<and>
      fst ` set (StreamConnectedGauge (gau s)) \<subseteq> set (MeasurementIDs cfg)" if "gauge_ok s"
    using that unfolding gauge_ok_def by (metis in_set_conv_nth map_of_eq_None_iff subsetI)
  moreover have "gauge_ok s" if "distinct (MeasurementIDs cfg)" by (rule gauges_ok(1) [OF assms that])
  moreover have "data_ok s" by (rule gauges_ok(2) [OF assms])
  ultimately show ?thesis unfolding data_ok_def by blast
qed

theorem gauges_accurate_witness:
  "\<exists>s. reachable sample_ext sample_looks ok_cfg 100 no_gauges s \<and>
     map_of (LastDataTimestampGauge (gau s)) (Itoa (MsmId sample_result)) = Some (float64_of_int 0)"
proof -
  obtain s where s: "reachable sample_ext sample_looks ok_cfg 100 no_gauges s"
    and h: "handled s = [(0, Some (Inr sample_probe), sample_result)]" "in_hand s = []"
    using sample_stream_run by blast
  have "arrivals s = [(0, sample_result)]" using h by (cases "proc s") (simp_all add: arrivals_def)
  with gauges_accurate [OF s, of "Itoa (MsmId sample_result)"] s show ?thesis
    by (intro exI [of _ s]) (simp add: Time_Unix_def)
qed

end
