(* ===== verification/Spec2Isabelle.thy ===== *)
theory Spec2Isabelle
  imports Server Stream_Gauges
begin

text \<open>
  A verification development for \<^emph>\<open>atlas_exporter\<close>, a Prometheus exporter for RIPE Atlas measurements written
  in Go. Paths below are relative to \<open>src/\<close>.

  \<^bold>\<open>The program.\<close> \<open>main.go\<close> loads the configuration (\<open>config/\<close>), starts a strategy (\<open>atlas/\<close>) and serves HTTP. A
  scrape asks the strategy for measurements: the request strategy fetches the latest results from the API and
  looks up their probes; the streaming strategy has one worker per configured measurement that forwards results
  over a channel to a processor, which keeps the measurements up to date. A measurement (\<open>exporter/\<close>) holds the
  latest valid result of each probe and its histograms; the exporters of the six types (\<open>ping/\<close>, \<open>traceroute/\<close>,
  \<open>ntp/\<close>, \<open>dns/\<close>, \<open>http/\<close>, \<open>sslcert/\<close>) turn results into metrics. Probes are looked up through a cache with a
  time to live (\<open>probe/\<close>).

  \<^bold>\<open>The theories\<close>, in the order of their imports:
  \<^item> \<open>Prelude\<close>: Go maps as association lists, updates of one element of a list, instants and durations.
  \<^item> \<open>Go_Float\<close>, \<open>Go_Strings\<close>: \<open>float64\<close> as rationals with the special values, rounding to even;
    the functions of \<open>strings\<close>, \<open>strconv\<close> and \<open>encoding/hex\<close> the code uses, with round trips.
  \<^item> \<open>Probe\<close>: \<open>probe/\<close>. The cache with explicit clock readings; the locale \<open>ttl_cache\<close> states what a cache with a
    time to live promises, interpreted on the model.
  \<^item> \<open>Results\<close>: what the code reads of a result and writes to Prometheus; the locales \<open>exporter_contract\<close>
    and \<open>stateless_exporter\<close> for the \<open>Export\<close>/\<open>Describe\<close> pairs.
  \<^item> \<open>Ping\<close>, \<open>Traceroute\<close>, \<open>Ntp\<close>, \<open>Dns\<close>, \<open>Http\<close>, \<open>Sslcert\<close>: one theory per package, each with an
    interpretation of the exporter contract. A definition carries the name of its package as a prefix where Go
    relies on the package for the scope.
  \<^item> \<open>Measurement\<close>: \<open>exporter/\<close>. The Go interfaces are datatypes of their implementations. Invariant
    \<open>Measurement_wf\<close>, the history of \<open>Add\<close>, and \<open>Collect\<close>.
  \<^item> \<open>Metric_Series\<close>: no series is sent twice by a measurement of any type but HTTP, its histogram included (the
    locale \<open>keyed_exporter\<close> extends the exporter contract), and how HTTP measurements can repeat one.
  \<^item> \<open>Config\<close>: \<open>config/\<close>; \<open>Types\<close>: the constructors of measurements and \<open>measurementForType\<close>.
  \<^item> \<open>Helper\<close>: \<open>atlas/probe_cache.go\<close> and the pipeline of \<open>atlas/helper.go\<close> as a step relation: safety, the
    absence of deadlocks, termination by a measure, and the goroutines it may leave behind. A run is
    interleaved with other users of the cache, and the API may answer differently from step to step, within the
    relation \<open>ans\<close> of a probe id and its answers.
  \<^item> \<open>Strategy\<close>: the interface \<open>Strategy\<close> as the locale \<open>strategy\<close> (what a scrape relies on) and the collector
    of \<open>collector.go\<close>; \<open>Request_Strategy\<close> and \<open>Stream_Strategy\<close> interpret it on their reachable states. The
    measurements a strategy returns are pointers: the contract says what may have become of them when
    they are collected.
  \<^item> \<open>Request_Strategy\<close>: \<open>atlas/request_strategy.go\<close>. The goroutines of a scrape, each with the pipeline of its
    probe lookup, as a step relation over the shared cache.
  \<^item> \<open>Stream_Worker\<close>, \<open>Stream_Strategy\<close>: the retry delay with 64-bit wrap-around; workers, channel and
    processor as one step relation (receiving a result and storing it are two steps, around the lookup of its probe),
    with invariants of the workers (counter of connected workers, retry counts), of the channel (nothing
    is lost but by panics), of the map of measurements (it refines \<open>stream_spec\<close>) and of the time of the last data. \<open>fails\<close>
    counts the failed subscriptions of a worker in a run: it gives up after 34 and not before. What lookups and streams may
    yield are parameters of the relation.
  \<^item> \<open>Stream_Gauges\<close>: what the gauges of \<open>atlas/metrics.go\<close> say of the workers and of the results received.
  \<^item> \<open>Stream_Progress\<close>: the locale \<open>stream_progress\<close>: wherever the strategy can take its steps and lookups can
    end, the channel can be emptied, blocked workers can go on, and after cancellation all workers can leave
    their loops without another event of a stream. It is interpreted on the strategy by itself and, in \<open>Process\<close>, on the process.
  \<^item> \<open>Process\<close>: the stream with its lookups (\<open>lookup_step\<close>), any number of scrapes and the cache cleaner (\<open>cleaner_step\<close>) as
    one step relation over the shared cache, from before \<open>InitCache\<close> on. Its invariant projects a run of the process to runs
    of the parts: each part keeps the cache coherent, which is all the others rely on. No part can block another. The ways
    in which a panic that nothing recovers or the run time ends the process are steps too: the ticker of the cleaner, a negative number
    of workers, the unlocked iteration of \<open>CleanUp\<close> during an \<open>Add\<close>, and a panic of \<open>Collect\<close>; \<open>process_ends\<close> says
    when each of them is possible. Panics the HTTP server recovers (of a handler, \<open>MustRegister\<close>) do not end it.
  \<^item> \<open>Server\<close>: \<open>main.go\<close>, \<open>helper.go\<close>, \<open>atlas/metrics.go\<close>. The handlers as functions, \<open>main\<close> as a
    list of actions with its exit (those of \<open>pflag.Parse\<close> included), and the values of the interface \<open>Strategy\<close> as a datatype of its two implementations.
  \<^item> This theory: the properties of a scrape from end to end, in the reachable states of the process.

  \<^bold>\<open>Conventions.\<close> A fallible call returns \<open>error + 'a\<close>; a panic is \<open>None\<close> (or a flag where state changes before
  it survive). Code outside the repository is a parameter with its documented behaviour as a hypothesis: the API
  and stream clients, JSON decoding, koanf, mapstructure and pflag, the Prometheus library, SHA-256 and PEM, the
  HTTP multiplexer and the random number generator. Time is read through arguments. The order in which Go visits
  a map is an argument. Operations under a mutex and atomic operations are single steps; a send on an unbuffered
  channel and its receive are one step.

  \<^bold>\<open>Bounds.\<close> No definition uses fuel: loops are recursions on data, and goroutines are step relations whose
  termination is proved by measures. \<open>collect_fresh\<close> is stated for ages below \<open>2^23\<close> seconds (97 days), where the
  conversion to \<open>float64\<close> is known to truncate exactly. The health check is exact for fewer than \<open>2^31\<close>
  measurements, the range of its counter. The sizes that are \<open>uint\<close> in the configuration are words of 64 bits and
  converted to \<open>int\<close> as the code does: \<open>consumer_count\<close> and \<open>makechan\<close> say when that panics. The largest channel and the
  longest slice the run time makes are parameters (\<open>chan_max\<close>, \<open>slice_max\<close>). Letters outside ASCII have no case: the names of
  configuration keys and environment variables are ASCII. A request to the API has no timeout in the code: a call that never
  returns is a step that is never taken, so termination and progress are shown for calls that return, with an answer
  or an error.

  \<^bold>\<open>Not modelled.\<close> Log output; the text of the exposition format; the timeouts of the HTTP server and the dispatch of
  its multiplexer; data races inside an operation other than the two phases of \<open>CleanUp\<close> and the late reading of
  histograms by \<open>Collect\<close> (the fingerprint variable of \<open>sslcert\<close> is passed along by one scrape; what another
  scrape can do to it is shown in \<open>Sslcert\<close>); the stream client's connection; closing of API channels
  abandoned after a parse error; the exhaustion of memory (also by a slice or a channel the run time allows). The multiplexer's notions of a well-formed
  pattern and of a conflict, and the registry's of a collector it accepts, are parameters. Label values are taken to be valid UTF-8, as
  decoded JSON is; with other bytes \<open>MustNewConstMetric\<close> would panic.
\<close>

section \<open>Properties that span components\<close>

lemma process_live_now:
  assumes "process_reachable e ctx_err ans cfg g p" and "streams p = Some s" and "good_setup e cfg"
    and "ms = List.map_filter (\<lambda>msm. stream_spec e cfg msm (results_of msm (handled s))) ids"
  shows "list_all2 (process_live e ctx_err ans cfg p) ms ms"
proof (rule list_all2_all_nthI)
  fix i assume "i < length ms"
  then have "ms ! i \<in> set ms" by simp
  have run: "reachable e (stream_looks ans) cfg (Streaming_BufferSize cfg) g s"
    using process_reachable_ok [OF assms(1)] assms(2) by (simp add: process_ok_def)
  have "stream_MeasurementResults (strat s) ids = Inr ms"
    using stream_run_refines [OF run assms(3), of ids] by (simp add: assms(4))
  with \<open>ms ! i \<in> set ms\<close> obtain k where k: "map_of (measurements (strat s)) k = Some (ms ! i)"
    by (auto simp: stream_MeasurementResults_def set_map_filter_Some)
  have "measurement_id (ms ! i) = k" by (rule stored_served(2) [OF reachable_ok(3) [OF run] k])
  with k assms(2) show "process_live e ctx_err ans cfg p (ms ! i) (ms ! i)"
    unfolding process_live_def process_run_def by force
qed simp

text \<open>C16: readiness of the streaming exporter: the endpoint answers 200 exactly when some worker is connected and,
  where an age is configured, a result has been received and the last one is fresh enough, in every
  reachable state of the process, and 503 otherwise, as before there is a strategy. With the
  request strategy it always answers 200.\<close>

theorem readyz_streaming:
  assumes "process_reachable e ctx_err ans cfg g p" and "streams p = Some s" and "length (Measurements cfg) < 2 ^ 31"
  shows "status (readyz now None) = 503 \<and> status (readyz now (Some (RequestStrategy q))) = 200 \<and>
    status (readyz now (Some (StreamingStrategy (strat s)))) =
      (if (\<exists>w \<in> set (ws s). connected w) \<and>
          (Health_MaxDataAge cfg > 0 \<longrightarrow> (\<exists>seen. last_seen s = Some seen \<and> Time_Unix seen \<noteq> 0 \<and>
             Time_Sub now (Time_Unix seen * Second) \<le> Health_MaxDataAge cfg))
       then 200 else 503)"
proof -
  have r: "reachable e (stream_looks ans) cfg (Streaming_BufferSize cfg) g s"
    using process_reachable_ok [OF assms(1)] assms(2) by (simp add: process_ok_def)
  have "lastDataTime (strat s) = (case last_seen s of None \<Rightarrow> 0 | Some seen \<Rightarrow> Time_Unix seen)"
    using reachable_ok(5) [OF r] by (simp add: time_ok_def)
  with stream_IsHealthy_iff [OF r assms(3), of now] show ?thesis
    by (cases "last_seen s") (simp_all add: readyz_def request_IsHealthy_def)
qed

theorem readyz_streaming_witness:
  "\<exists>p s. process_reachable sample_ext ''timeout'' sample_ans one_worker no_gauges p \<and> streams p = Some s \<and>
     status (readyz 0 (Some (StreamingStrategy (strat s)))) = 200"
proof -
  obtain p s where p: "process_reachable sample_ext ''timeout'' sample_ans one_worker no_gauges p"
    and s: "streams p = Some s" "connected (ws s ! 0)" "0 < length (ws s)"
    using sample_process by blast
  have m: "length (Measurements one_worker) < 2 ^ 31" "Health_MaxDataAge one_worker = 0"
    by (simp_all add: ok_cfg_def sample_cfg_def)
  have "\<exists>w \<in> set (ws s). connected w" using s(2,3) nth_mem by blast
  with readyz_streaming [OF p s(1) m(1), of 0] p s(1) m(2) show ?thesis by auto
qed

text \<open>C2: a scrape served by a request strategy, for one measurement (ad hoc) or for the configured ones (without
  streaming), among whatever else the process does. Whatever the strategy returns, the handler answers: 500 with the
  error of the context when it fails; otherwise what the registry serves for the configured collectors, the four
  metrics of the exporter and, when measurements were delivered, one collector of them. There is at most
  one measurement per requested id; what the collector sends is described, and (filtering on, no
  probe with exactly one coordinate) is collected without a panic; no series is sent twice when the
  ids are distinct (HTTP measurements apart).\<close>

theorem request_scrape:
  assumes "process_reachable e ctx_err ans cfg g p" and "j \<in> set (jobs p)" and "j_ids j = ids" and "ids \<noteq> []"
    and "ids = (if mid = [] then MeasurementIDs cfg else [mid])"
    and "result = (if mid = [] then default_results env ids else adhoc_results env cfg (Worker_Count cfg) ids)"
    and "gathered (j_scrape j) = Gathered result"
    and "\<And>reg c. register_ok env reg c" and "FilterInvalidResults cfg"
    and "visits_all visit" and "\<And>k pr. ans k pr \<Longrightarrow> length (Coordinates pr) \<noteq> 1"
  shows "case result of
      Inl err \<Rightarrow> err = ctx_err \<and>
        errorHandler (handleMetricsRequest env cfg mid) = Some \<lparr>status = 500, body = ctx_err @ newline\<rparr>
    | Inr ms \<Rightarrow>
        errorHandler (handleMetricsRequest env cfg mid) = Some (ServeHTTP env (scrape_collectors cfg ms)) \<and>
        mset (map measurement_id ms) \<subseteq># mset ids \<and>
        (\<exists>xs vars'. collector_Collect e visit clock vars ms = Some (xs, vars') \<and>
           (\<forall>x \<in> set xs. metric_described (collector_Describe ms) x) \<and>
           (distinct ids \<and> (\<forall>m \<in> set ms. \<nexists>mid. exporter m = httpExporter mid) \<longrightarrow> distinct (map series xs)))"
proof -
  have ok: "job_ok e ctx_err ans cfg j" using process_reachable_ok [OF assms(1)] assms(2) by (simp add: process_ok_def)
  note out = job_outcome [OF ok assms(7), unfolded assms(3)]
  have reg: "MustRegister (register_ok env) r cs = Some (r @ cs)" for r cs
    by (rule MustRegister_ok) (rule assms(8))
  have answer: "handleMetricsRequest env cfg mid = (case result of Inl err \<Rightarrow> Failed err
      | Inr ms \<Rightarrow> Written (Some (ServeHTTP env (scrape_collectors cfg ms))) [Duration_Seconds (elapsed env)])"
    using assms(4-6) by (cases "mid = []") (simp_all add: handleMetricsRequest_def reg split: sum.splits)
  show ?thesis
  proof (cases result)
    case (Inl err)
    with request_outcome_cases [OF out] answer show ?thesis by (simp add: errorHandler_def)
  next
    case (Inr ms)
    note o = out [unfolded Inr]
    have live: "list_all2 (=) ms ms" by (simp add: list.rel_eq)
    have "collector_Collect e visit clock vars ms \<noteq> None"
      by (rule request.collect_total [OF o live]) (use ok assms(9-11) in \<open>auto simp: job_ok_def\<close>)
    then obtain xs vars' where c: "collector_Collect e visit clock vars ms = Some (xs, vars')" by auto
    have "distinct (map series xs)" if "distinct ids" and "\<forall>m \<in> set ms. \<nexists>mid. exporter m = httpExporter mid"
      by (rule request.collect_distinct [OF o live that(1) assms(10) _ _ c]) (use that in auto)
    with c request.requested [OF o] request.live_described [OF o live c] answer show ?thesis
      by (simp add: Inr errorHandler_def)
  qed
qed

theorem request_scrape_witness:
  "\<exists>m xs vars'. collector_Collect sample_ext (\<lambda>m. map fst (latest m)) (\<lambda>k. 0) \<lparr>certFingerprint = []\<rparr> [m] = Some (xs, vars') \<and>
     measurement_id m = ''1001''"
proof -
  obtain p t m where p: "process_reachable sample_ext ''timeout'' sample_ans one_worker no_gauges p"
    and j: "jobs p = [adhoc_job t]" and t: "gathered t = Gathered (Inr [m])" using sample_process by blast
  let ?env = "\<lparr>default_results = \<lambda>_. Inr [], adhoc_results = \<lambda>c n ids. Inr [m], register_ok = \<lambda>reg c. True,
    ServeHTTP = \<lambda>reg. \<lparr>status = 200, body = []\<rparr>, elapsed = 0\<rparr>"
  have c: "FilterInvalidResults one_worker" by (simp add: ok_cfg_def sample_cfg_def)
  have "case Inr [m] of
      Inl err \<Rightarrow> err = ''timeout'' \<and>
        errorHandler (handleMetricsRequest ?env one_worker ''1001'') = Some \<lparr>status = 500, body = ''timeout'' @ newline\<rparr>
    | Inr ms \<Rightarrow>
        errorHandler (handleMetricsRequest ?env one_worker ''1001'') = Some (ServeHTTP ?env (scrape_collectors one_worker ms)) \<and>
        mset (map measurement_id ms) \<subseteq># mset [''1001''] \<and>
        (\<exists>xs vars'. collector_Collect sample_ext (\<lambda>m. map fst (latest m)) (\<lambda>k. 0) \<lparr>certFingerprint = []\<rparr> ms = Some (xs, vars') \<and>
           (\<forall>x \<in> set xs. metric_described (collector_Describe ms) x) \<and>
           (distinct [''1001''] \<and> (\<forall>m \<in> set ms. \<nexists>mid. exporter m = httpExporter mid) \<longrightarrow> distinct (map series xs)))"
    by (rule request_scrape [OF p, where j = "adhoc_job t" and mid = "''1001''"])
      (use j t c in \<open>auto simp: visits_all_def sample_probe_def\<close>)
  then show ?thesis by auto
qed

text \<open>C1: a scrape of the configured measurements while streaming, from the workers to the metrics, among whatever
  else the process does. In every reachable state the handler serves, beside the exporter's own metrics, exactly
  the measurements made from the results processed so far, in the order of the configuration. The collector
  reads them while the stream goes on: what it finds then (\<open>ms'\<close>: the results of some later state, the histograms of
  a still later one) is collected without a panic and sends only metrics described at registration; and when the
  configured ids are distinct and probes carry the ids they were asked for, no series is sent
  twice (HTTP measurements apart).\<close>

theorem streaming_scrape:
  assumes "process_reachable e ctx_err ans cfg g p" and "streams p = Some s" and "good_setup e cfg"
    and "Strategy_MeasurementResults e ctx_err ans (StreamingStrategy (strat s)) (MeasurementIDs cfg)
      (default_results env (MeasurementIDs cfg))" and "Measurements cfg \<noteq> []"
    and "\<And>reg c. register_ok env reg c" and "FilterInvalidResults cfg"
    and "visits_all visit" and "\<And>k pr. ans k pr \<Longrightarrow> length (Coordinates pr) \<noteq> 1"
    and "ms = List.map_filter (\<lambda>msm. stream_spec e cfg msm (results_of msm (handled s))) (MeasurementIDs cfg)"
    and "list_all2 (process_live e ctx_err ans cfg p) ms ms'"
  shows "errorHandler (handleMetricsRequest env cfg []) = Some (ServeHTTP env (scrape_collectors cfg ms)) \<and>
    (\<exists>xs vars'. collector_Collect e visit clock vars ms' = Some (xs, vars') \<and>
       (\<forall>x \<in> set xs. metric_described (collector_Describe ms) x) \<and>
       (distinct (MeasurementIDs cfg) \<and> (\<forall>k pr. ans k pr \<longrightarrow> ID pr = k) \<and>
          (\<forall>m \<in> set ms. \<nexists>mid. exporter m = httpExporter mid) \<longrightarrow> distinct (map series xs)))"
proof -
  have ok: "process_ok e ctx_err ans cfg g p" by (rule process_reachable_ok [OF assms(1)])
  then have run: "reachable e (stream_looks ans) cfg (Streaming_BufferSize cfg) g s"
    using assms(2) by (simp add: process_ok_def)
  have r: "stream_MeasurementResults (strat s) (MeasurementIDs cfg) = Inr ms"
    using stream_run_refines [OF run assms(3), of "MeasurementIDs cfg"] by (simp add: assms(10))
  have reg: "MustRegister (register_ok env) reg cs = Some (reg @ cs)" for reg cs
    by (rule MustRegister_ok) (rule assms(6))
  have "errorHandler (handleMetricsRequest env cfg []) = Some (ServeHTTP env (scrape_collectors cfg ms))"
    using assms(4,5) r by (simp add: handleMetricsRequest_def errorHandler_def reg MeasurementIDs_def)
  moreover have o: "stream_outcome e (stream_looks ans) cfg (Streaming_BufferSize cfg) g s (MeasurementIDs cfg) (Inr ms)"
    using run r by (simp add: stream_outcome_def)
  moreover have live: "list_all2 (stream_live e (stream_looks ans) s) ms ms'"
    using assms(11) process_live_stream [OF ok assms(2)] by (rule list_all2_mono)
  moreover have "collector_Collect e visit clock vars ms' \<noteq> None"
    by (rule stream.collect_total [OF o live assms(7,8)]) (use assms(9) in simp)
  then obtain xs vars' where c: "collector_Collect e visit clock vars ms' = Some (xs, vars')" by auto
  moreover have "distinct (map series xs)" if "distinct (MeasurementIDs cfg)" and "\<forall>k pr. ans k pr \<longrightarrow> ID pr = k"
    and "\<forall>m \<in> set ms. \<nexists>mid. exporter m = httpExporter mid"
    by (rule stream.collect_distinct [OF o live that(1) assms(8) _ _ c]) (use that in simp_all)
  ultimately show ?thesis using stream.live_described [OF o live c] by blast
qed

theorem streaming_scrape_witness:
  "\<exists>p s ms xs vars'. process_reachable sample_ext ''timeout'' sample_ans one_worker no_gauges p \<and> streams p = Some s \<and>
     ms = List.map_filter (\<lambda>msm. stream_spec sample_ext one_worker msm (results_of msm (handled s))) (MeasurementIDs one_worker) \<and>
     collector_Collect sample_ext (\<lambda>m. map fst (latest m)) (\<lambda>k. 0) \<lparr>certFingerprint = []\<rparr> ms = Some (xs, vars')"
proof -
  obtain p s where p: "process_reachable sample_ext ''timeout'' sample_ans one_worker no_gauges p"
    and s: "streams p = Some s" using sample_process by blast
  let ?env = "\<lparr>default_results = stream_MeasurementResults (strat s), adhoc_results = \<lambda>c n ids. Inr [],
    register_ok = \<lambda>reg c. True, ServeHTTP = \<lambda>reg. \<lparr>status = 200, body = []\<rparr>, elapsed = 0\<rparr>"
  define ms where "ms = List.map_filter (\<lambda>msm. stream_spec sample_ext one_worker msm (results_of msm (handled s))) (MeasurementIDs one_worker)"
  have c: "Measurements one_worker \<noteq> []" "FilterInvalidResults one_worker" by (simp_all add: ok_cfg_def sample_cfg_def)
  have v: "visits_all (\<lambda>m. map fst (latest m))" by (simp add: visits_all_def)
  have good: "good_setup sample_ext one_worker" using sample_hist_ok buckets_one_worker by (simp add: good_setup_def)
  have live: "list_all2 (process_live sample_ext ''timeout'' sample_ans one_worker p) ms ms"
    by (rule process_live_now [OF p s good ms_def])
  have "errorHandler (handleMetricsRequest ?env one_worker []) = Some (ServeHTTP ?env (scrape_collectors one_worker ms)) \<and>
    (\<exists>xs vars'. collector_Collect sample_ext (\<lambda>m. map fst (latest m)) (\<lambda>k. 0) \<lparr>certFingerprint = []\<rparr> ms = Some (xs, vars') \<and>
       (\<forall>x \<in> set xs. metric_described (collector_Describe ms) x) \<and>
       (distinct (MeasurementIDs one_worker) \<and> (\<forall>k pr. sample_ans k pr \<longrightarrow> ID pr = k) \<and>
          (\<forall>m \<in> set ms. \<nexists>mid. exporter m = httpExporter mid) \<longrightarrow> distinct (map series xs)))"
    by (rule streaming_scrape [OF p s good _ _ _ _ v _ ms_def live]) (use c in \<open>simp_all add: sample_probe_def\<close>)
  with p s ms_def show ?thesis by blast
qed

end
